theory Spec2Isabelle
  imports Main "HOL-Library.Word"
begin

unbundle bit_operations_syntax

section \<open>Data model\<close>

text \<open>
  The model follows \<^verbatim>\<open>src/vm/process.cc\<close>. Heap objects are identified by an abstract
  address; a moving collector changes where an object lives (the layout component of the
  heap) but not its identity. \<^verbatim>\<open>uword\<close> is the unsigned machine word: it is kept as a
  word of any length \<open>'w\<close>. C++ \<^verbatim>\<open>int\<close> values (stack lengths, indices) are mathematical
  integers: signed overflow is undefined in C++, so the model describes the executions in
  which the sums are representable.
\<close>

type_synonym addr = nat

datatype failure = retry_after_gc | wrong_argument_type | index_out_of_bounds | illegal_state

text \<open>
  An \<^verbatim>\<open>Object*\<close>: a small integer, one of the failure sentinels, or a pointer to a heap
  object. \<^verbatim>\<open>NULL\<close> and \<^verbatim>\<open>Smi::zero()\<close> are the same bit pattern, \<open>Smi 0\<close>. Stack slots
  also hold raw machine addresses (byte-code pointers, frame pointers): \<open>RawWord\<close>.
\<close>

datatype object = Smi int | Failure failure | HeapObject addr | RawWord int

record Stack =
  stack_top :: int
  stack_next :: object
  words :: "object list"

datatype heap_object =
    StackObject Stack
  | CoroutineObject object
  | InstanceObject addr "object list"
  | ArrayObject "object list"
  | LargeIntegerObject int

datatype finalizer = FinalizeForeign | FinalizeProcess

record 's Heap =
  objects :: "addr \<rightharpoonup> heap_object"
  space :: 's
  weak_pointers :: "(addr \<times> finalizer) list"
  foreign_memory :: int

datatype error = AssertionFailed | NullPointer | CastFailed | IndexOutOfRange

datatype StackCheckResult =
    kStackCheckContinue | kStackCheckInterrupt | kStackCheckDebugInterrupt | kStackCheckOverflow

text \<open>The roots of \<^verbatim>\<open>Program\<close> (\<^verbatim>\<open>src/vm/program.h\<close>) that the process uses.\<close>

record Program =
  is_compact :: bool
  null_object :: object
  array_class :: addr
  stack_class :: addr
  coroutine_class :: addr
  large_integer_class :: addr
  foreign_memory_class :: addr
  process_class :: addr
  process_death_class :: addr

record 'u Entry =
  clazz :: "addr option"
  selector :: int
  target :: "addr option"
  tag :: 'u

record 'u LookupCache =
  primary :: "nat \<Rightarrow> 'u Entry"
  secondary :: "nat \<Rightarrow> 'u Entry"

record 'u ThreadState =
  cache :: "'u LookupCache option"

text \<open>
  A \<^verbatim>\<open>Signal\<close> and a \<^verbatim>\<open>ProcessHandle\<close> are reference-counted objects outside the
  heaps, shared between processes; they are identified by a number, and their counts are
  kept beside the process (\<open>signal_refs\<close>, \<open>handle_refs\<close>).
\<close>

record Signal =
  handle :: nat
  signal_kind :: int

datatype MessageKind =
    IMMEDIATE | IMMUTABLE_OBJECT | FOREIGN | FOREIGN_FINALIZED | LARGE_INTEGER | EXIT
  | PROCESS_DEATH_SIGNAL

text \<open>
  A message has one 64-bit value, which the accessors read as an integer, as an
  \<^verbatim>\<open>Object*\<close>, as the exit reference or as the \<^verbatim>\<open>Signal*\<close>, depending on the kind.
\<close>

record Message =
  kind :: MessageKind
  msg_value :: int
  msg_size :: int
  value_object :: object
  ExitReferenceObject :: object
  ProcessDeathSignal :: Signal

text \<open>
  A log of the allocation attempts of the process factories and of the collections, in
  the order in which they happen. It is not a field of the source: it records how often
  the process allocates and collects, and nothing reads it.
\<close>

datatype factory = kNewArray | kNewInstance | kNewInteger | kNewStack

datatype event = Allocation factory object | MutableCollection

record ('u, 's) Process =
  coroutine :: "addr option"
  stack_limit :: 'u
  program :: Program
  store_buffer :: "addr list"
  heap :: "'s Heap"
  immutable_heap :: "'s Heap option"
  signal :: "nat option"
  mailbox :: "Message list"
  cooked_stack_deltas :: "int list list"
  thread_state :: "'u ThreadState option"
  signal_refs :: "nat \<Rightarrow> int"
  handle_refs :: "nat \<Rightarrow> int"
  events :: "event list"

text \<open>
  What the process calls and the sources do not contain is a parameter of the model:
  the platform constants, the address of a stack slot in the current heap layout
  (\<^verbatim>\<open>Stack::Pointer\<close>), the allocator's answers (\<^verbatim>\<open>Heap::Create...\<close>), the collector
  (its effect on the heap layout and on the store buffer) and
  \<^verbatim>\<open>Stack::UpdateFramePointers\<close>, given by the slots of the new stack it rewrites.
\<close>

datatype allocation = AllocationFailure failure | Allocated addr heap_object

record ('u, 's) VM =
  MaxStackSizeInWords :: "32 word"
  kGuaranteedFrameSize :: int
  Pointer :: "'s \<Rightarrow> addr \<Rightarrow> int \<Rightarrow> 'u"
  CreateStack :: "'s \<Rightarrow> addr \<Rightarrow> int \<Rightarrow> allocation \<times> 's"
  CreateArray :: "'s \<Rightarrow> addr \<Rightarrow> int \<Rightarrow> object \<Rightarrow> allocation \<times> 's"
  CreateInstance :: "'s \<Rightarrow> addr \<Rightarrow> object \<Rightarrow> bool \<Rightarrow> allocation \<times> 's"
  CreateLargeInteger :: "'s \<Rightarrow> addr \<Rightarrow> int \<Rightarrow> allocation \<times> 's"
  Scavenge :: "'s \<Rightarrow> addr list \<Rightarrow> 's \<times> addr list"
  UpdateFramePointers :: "'s \<Rightarrow> addr \<Rightarrow> Stack \<Rightarrow> addr \<Rightarrow> Stack \<Rightarrow> (nat \<times> object) list"

section \<open>Interrupt markers on the stack limit\<close>

definition kPreemptMarker :: "'w::len word" where
  "kPreemptMarker = push_bit 0 1"

definition kProfileMarker :: "'w::len word" where
  "kProfileMarker = push_bit 1 1"

definition kDebugInterruptMarker :: "'w::len word" where
  "kDebugInterruptMarker = push_bit 2 1"

definition kMaxStackMarker :: "'w::len word" where
  "kMaxStackMarker = NOT (push_bit 3 1 - 1)"

text \<open>
  \<^verbatim>\<open>SetStackMarker\<close> and \<^verbatim>\<open>ClearStackMarker\<close> are compare-exchange loops on the atomic
  word. The loop functions take the marker, the atomic word and the local copy
  \<^verbatim>\<open>stack_limit\<close> (here \<open>expected\<close>), and return the new value of the atomic word.
  The exchange succeeds when the word still holds the local copy; otherwise the local
  copy is reloaded and the body runs again. No other thread writes the word in this
  sequential model, and spurious failures of the weak exchange (which repeat the body with
  the same values) are left out.
\<close>

function SetStackMarker_loop :: "'w::len word \<Rightarrow> 'w word \<Rightarrow> 'w word \<Rightarrow> 'w word" where
  "SetStackMarker_loop marker cell expected =
     (let updated_limit = (if expected < kMaxStackMarker then kMaxStackMarker else expected);
          updated_limit = updated_limit OR marker
      in if cell = expected then updated_limit
         else SetStackMarker_loop marker cell cell)"
  by pat_completeness auto
termination
  by (relation "measure (\<lambda>(marker, cell, expected). if cell = expected then 0 else 1)") auto

definition SetStackMarker :: "'w::len word \<Rightarrow> ('w word, 's) Process \<Rightarrow> ('w word, 's) Process" where
  "SetStackMarker marker p =
     p\<lparr>stack_limit := SetStackMarker_loop marker (stack_limit p) (stack_limit p)\<rparr>"

function ClearStackMarker_loop :: "'w::len word \<Rightarrow> 'w word \<Rightarrow> 'w word \<Rightarrow> error + 'w word" where
  "ClearStackMarker_loop marker cell expected =
     (if expected AND marker = 0 then Inl AssertionFailed
      else let updated_limit = expected AND NOT marker
           in if cell = expected then Inr updated_limit
              else ClearStackMarker_loop marker cell cell)"
  by pat_completeness auto
termination
  by (relation "measure (\<lambda>(marker, cell, expected). if cell = expected then 0 else 1)") auto

definition ClearStackMarker ::
  "'w::len word \<Rightarrow> ('w word, 's) Process \<Rightarrow> error + ('w word, 's) Process" where
  "ClearStackMarker marker p =
     (case ClearStackMarker_loop marker (stack_limit p) (stack_limit p) of
        Inl e \<Rightarrow> Inl e
      | Inr limit \<Rightarrow> Inr (p\<lparr>stack_limit := limit\<rparr>))"

definition Preempt :: "('w::len word, 's) Process \<Rightarrow> ('w word, 's) Process" where
  "Preempt p = SetStackMarker kPreemptMarker p"

definition DebugInterrupt :: "('w::len word, 's) Process \<Rightarrow> ('w word, 's) Process" where
  "DebugInterrupt p = SetStackMarker kDebugInterruptMarker p"

definition Profile :: "('w::len word, 's) Process \<Rightarrow> ('w word, 's) Process" where
  "Profile p = SetStackMarker kProfileMarker p"

section \<open>The current stack\<close>

text \<open>
  \<^verbatim>\<open>Stack::cast\<close> and \<^verbatim>\<open>Coroutine::cast\<close> check the kind of the object
  (an assertion in the source); \<^verbatim>\<open>Process::stack()\<close> is \<^verbatim>\<open>coroutine_->stack()\<close>.
\<close>

definition Stack_cast :: "'s Heap \<Rightarrow> object \<Rightarrow> error + (addr \<times> Stack)" where
  "Stack_cast h ob =
     (case ob of
        HeapObject a \<Rightarrow>
          (case objects h a of Some (StackObject s) \<Rightarrow> Inr (a, s) | _ \<Rightarrow> Inl CastFailed)
      | _ \<Rightarrow> Inl CastFailed)"


definition Coroutine_stack :: "'s Heap \<Rightarrow> addr \<Rightarrow> error + (addr \<times> Stack)" where
  "Coroutine_stack h c =
     (case objects h c of
        Some (CoroutineObject s) \<Rightarrow> Stack_cast h s
      | _ \<Rightarrow> Inl CastFailed)"

definition has_stack :: "'s Heap \<Rightarrow> addr \<Rightarrow> bool" where
  "has_stack h c = (case Coroutine_stack h c of Inl e \<Rightarrow> False | Inr s \<Rightarrow> True)"

definition set_stack :: "'s Heap \<Rightarrow> addr \<Rightarrow> addr \<Rightarrow> 's Heap" where
  "set_stack h c a = h\<lparr>objects := (objects h)(c \<mapsto> CoroutineObject (HeapObject a))\<rparr>"

definition stack :: "('u, 's) Process \<Rightarrow> error + (addr \<times> Stack)" where
  "stack p =
     (case coroutine p of
        None \<Rightarrow> Inl NullPointer
      | Some c \<Rightarrow> Coroutine_stack (heap p) c)"

definition Stack_length :: "Stack \<Rightarrow> int" where
  "Stack_length s = int (length (words s))"

definition compare_exchange_strong :: "'a \<Rightarrow> 'a \<Rightarrow> 'a \<Rightarrow> 'a" where
  "compare_exchange_strong cell expected desired = (if cell = expected then desired else cell)"

definition UpdateStackLimit ::
  "('w::len word, 's) VM \<Rightarrow> ('w word, 's) Process \<Rightarrow> error + ('w word, 's) Process" where
  "UpdateStackLimit vm p =
     (case stack p of
        Inl e \<Rightarrow> Inl e
      | Inr (a, s) \<Rightarrow>
          let frame_size = kGuaranteedFrameSize vm + 2;
              current_limit = stack_limit p
          in if current_limit \<le> kMaxStackMarker
             then let new_stack_limit = Pointer vm (space (heap p)) a frame_size
                  in Inr (p\<lparr>stack_limit :=
                            compare_exchange_strong (stack_limit p) current_limit new_stack_limit\<rparr>)
             else Inr p)"

section \<open>Allocation\<close>

text \<open>
  Modelled from the spec: \<^verbatim>\<open>Heap\<close> and \<^verbatim>\<open>StoreBuffer\<close> are not among the sources.
  A factory returns a heap object or a failure sentinel (spec 4.2); whether it succeeds,
  the address and the initial contents of the object are the allocator's answer, a
  parameter. The store buffer holds heap objects and tolerates duplicates (spec 4.3):
  \<^verbatim>\<open>Insert\<close> adds an entry at the end.
\<close>

definition Heap_allocate :: "'s Heap \<Rightarrow> allocation \<times> 's \<Rightarrow> object \<times> 's Heap" where
  "Heap_allocate h r =
     (case r of
        (AllocationFailure f, s) \<Rightarrow> (Failure f, h\<lparr>space := s\<rparr>)
      | (Allocated a ob, s) \<Rightarrow> (HeapObject a, h\<lparr>objects := (objects h)(a \<mapsto> ob), space := s\<rparr>))"

definition StoreBuffer_Insert :: "addr list \<Rightarrow> addr \<Rightarrow> addr list" where
  "StoreBuffer_Insert sb a = sb @ [a]"

definition IsFailure :: "object \<Rightarrow> bool" where
  "IsFailure ob = (case ob of Failure f \<Rightarrow> True | _ \<Rightarrow> False)"

definition HeapObject_cast :: "object \<Rightarrow> error + addr" where
  "HeapObject_cast ob = (case ob of HeapObject a \<Rightarrow> Inr a | _ \<Rightarrow> Inl CastFailed)"

definition NewArray :: "('u, 's) VM \<Rightarrow> ('u, 's) Process \<Rightarrow> int \<Rightarrow> object \<times> ('u, 's) Process" where
  "NewArray vm p len =
     (let array_class = array_class (program p);
          null = null_object (program p);
          (result, h) = Heap_allocate (heap p) (CreateArray vm (space (heap p)) array_class len null)
      in (result, p\<lparr>heap := h, events := events p @ [Allocation kNewArray result]\<rparr>))"

definition NewInstance ::
  "('u, 's) VM \<Rightarrow> ('u, 's) Process \<Rightarrow> addr \<Rightarrow> bool \<Rightarrow> error + (object \<times> ('u, 's) Process)" where
  "NewInstance vm p klass immutable =
     (let null = null_object (program p)
      in if immutable
         then (case immutable_heap p of
                 None \<Rightarrow> Inl NullPointer
               | Some ih \<Rightarrow>
                   let (result, h) = Heap_allocate ih (CreateInstance vm (space ih) klass null immutable)
                   in Inr (result, p\<lparr>immutable_heap := Some h,
                                      events := events p @ [Allocation kNewInstance result]\<rparr>))
         else let (result, h) =
                    Heap_allocate (heap p) (CreateInstance vm (space (heap p)) klass null immutable)
              in Inr (result, p\<lparr>heap := h, events := events p @ [Allocation kNewInstance result]\<rparr>))"

definition NewInteger ::
  "('u, 's) VM \<Rightarrow> ('u, 's) Process \<Rightarrow> int \<Rightarrow> error + (object \<times> ('u, 's) Process)" where
  "NewInteger vm p v =
     (let large_integer_class = large_integer_class (program p)
      in case immutable_heap p of
           None \<Rightarrow> Inl NullPointer
         | Some ih \<Rightarrow>
             let (result, h) = Heap_allocate ih (CreateLargeInteger vm (space ih) large_integer_class v)
             in Inr (result, p\<lparr>immutable_heap := Some h,
                                events := events p @ [Allocation kNewInteger result]\<rparr>))"

definition NewStack ::
  "('u, 's) VM \<Rightarrow> ('u, 's) Process \<Rightarrow> int \<Rightarrow> error + (object \<times> ('u, 's) Process)" where
  "NewStack vm p len =
     (let stack_class = stack_class (program p);
          (result, h) = Heap_allocate (heap p) (CreateStack vm (space (heap p)) stack_class len);
          p1 = p\<lparr>heap := h, events := events p @ [Allocation kNewStack result]\<rparr>
      in if IsFailure result then Inr (result, p1)
         else (case HeapObject_cast result of
                 Inl e \<Rightarrow> Inl e
               | Inr a \<Rightarrow> Inr (result, p1\<lparr>store_buffer := StoreBuffer_Insert (store_buffer p1) a\<rparr>)))"

section \<open>Collection\<close>

text \<open>
  \<^verbatim>\<open>CollectMutableGarbage\<close>: both variants of the source end in \<^verbatim>\<open>UpdateStackLimit()\<close>.
  What comes before it (the scavenge with \<^verbatim>\<open>ReplaceAfterMutableGC\<close>, or
  \<^verbatim>\<open>CollectSharedGarbage\<close>) is the collector, which is not among the sources: it moves
  objects and replaces the store buffer.
\<close>

definition CollectMutableGarbage ::
  "('w::len word, 's) VM \<Rightarrow> ('w word, 's) Process \<Rightarrow> error + ('w word, 's) Process" where
  "CollectMutableGarbage vm p =
     (let (to, sb) = Scavenge vm (space (heap p)) (store_buffer p)
      in UpdateStackLimit vm (p\<lparr>heap := (heap p)\<lparr>space := to\<rparr>, store_buffer := sb,
                                events := events p @ [MutableCollection]\<rparr>))"

section \<open>The execution stack\<close>




text \<open>
  A C++ \<^verbatim>\<open>int\<close> has 32 bits. \<open>as_int x\<close> is the \<^verbatim>\<open>int\<close> that a conversion from an unsigned
  word, or an addition of two \<^verbatim>\<open>int\<close>s, gives when its mathematical value is \<open>x\<close>: the
  value wraps around (two's complement). \<^verbatim>\<open>Platform::MaxStackSizeInWords()\<close> is an
  \<^verbatim>\<open>int\<close>: a 32-bit word read as a signed number.
\<close>

definition as_int :: "int \<Rightarrow> int" where
  "as_int x = sint (word_of_int x :: 32 word)"

text \<open>
  Modelled from the spec: \<^verbatim>\<open>Utils::RoundUpToPowerOfTwo\<close> is not among the sources. The
  spec says "rounding \<^verbatim>\<open>addition\<close> up to the next power of two": the least power of two
  that is at least the argument. The function works on unsigned 32-bit words.
  \<open>RoundUpToPowerOfTwo n\<close> is what line 192 stores in the \<^verbatim>\<open>int size_increase\<close>: the
  argument \<open>n\<close> converted to an unsigned word, rounded up, and the result converted to
  \<^verbatim>\<open>int\<close>. For \<open>n\<close> above \<open>2 ^ 30\<close> the result is not positive.
\<close>

function next_power_of_two_from :: "int \<Rightarrow> int \<Rightarrow> int" where
  "next_power_of_two_from p n = (if p \<le> 0 \<or> n \<le> p then p else next_power_of_two_from (2 * p) n)"
  by pat_completeness auto
termination
  by (relation "measure (\<lambda>(p, n). nat (n - p))") auto

definition RoundUpToPowerOfTwo :: "int \<Rightarrow> int" where
  "RoundUpToPowerOfTwo n = as_int (next_power_of_two_from 1 (uint (word_of_int n :: 32 word)))"

text \<open>
  \<^verbatim>\<open>memcpy\<close> of \<open>n\<close> words from position \<open>spos\<close> of \<open>src\<close> to position \<open>dpos\<close> of \<open>dst\<close>.
  Outside the two objects the C++ is undefined: the model fails.
\<close>

definition memcpy_words ::
  "object list \<Rightarrow> int \<Rightarrow> object list \<Rightarrow> int \<Rightarrow> int \<Rightarrow> error + object list" where
  "memcpy_words dst dpos src spos n =
     (if 0 \<le> n \<and> 0 \<le> dpos \<and> dpos + n \<le> int (length dst) \<and> 0 \<le> spos \<and> spos + n \<le> int (length src)
      then Inr (take (nat dpos) dst @ take (nat n) (drop (nat spos) src) @ drop (nat (dpos + n)) dst)
      else Inl IndexOutOfRange)"

definition rewrite_words :: "(nat \<times> object) list \<Rightarrow> object list \<Rightarrow> object list" where
  "rewrite_words rs ws = fold (\<lambda>(i, v) xs. xs[i := v]) rs ws"

text \<open>Lines 206 to 217 of \<^verbatim>\<open>HandleStackOverflow\<close>: the new stack replaces the old one.\<close>

definition HandleStackOverflow_install ::
  "('w::len word, 's) VM \<Rightarrow> ('w word, 's) Process \<Rightarrow> object \<Rightarrow>
     error + (StackCheckResult \<times> ('w word, 's) Process)" where
  "HandleStackOverflow_install vm p new_stack_object =
     (case Stack_cast (heap p) new_stack_object of
        Inl e \<Rightarrow> Inl e
      | Inr (na, new_stack) \<Rightarrow>
     (case stack p of
        Inl e \<Rightarrow> Inl e
      | Inr (oa, old_stack) \<Rightarrow>
     (let height = Stack_length old_stack - stack_top old_stack
      in if height < 0 then Inl AssertionFailed
         else let new_stack = new_stack\<lparr>stack_top := Stack_length new_stack - height\<rparr>
              in case memcpy_words (words new_stack) (stack_top new_stack)
                        (words old_stack) (stack_top old_stack) height of
                   Inl e \<Rightarrow> Inl e
                 | Inr ws \<Rightarrow>
     (let new_stack = new_stack\<lparr>words := ws\<rparr>;
          new_stack = new_stack\<lparr>words :=
            rewrite_words (UpdateFramePointers vm (space (heap p)) na new_stack oa old_stack)
              (words new_stack)\<rparr>;
          p1 = p\<lparr>heap := (heap p)\<lparr>objects := (objects (heap p))(na \<mapsto> StackObject new_stack)\<rparr>\<rparr>
      in case coroutine p1 of
           None \<Rightarrow> Inl NullPointer
         | Some c \<Rightarrow>
             if \<not> has_stack (heap p1) c then Inl AssertionFailed
             else let p2 = p1\<lparr>heap := set_stack (heap p1) c na\<rparr>
                  in case stack p2 of
                       Inl e \<Rightarrow> Inl e
                     | Inr (a, s) \<Rightarrow>
                         (case UpdateStackLimit vm
                                 (p2\<lparr>store_buffer := StoreBuffer_Insert (store_buffer p2) a\<rparr>) of
                            Inl e \<Rightarrow> Inl e
                          | Inr p3 \<Rightarrow> Inr (kStackCheckContinue, p3))))))"

text \<open>Lines 192 to 204: the size check and the allocation with one retry.\<close>

definition HandleStackOverflow_grow ::
  "('w::len word, 's) VM \<Rightarrow> ('w word, 's) Process \<Rightarrow> int \<Rightarrow>
     error + (StackCheckResult \<times> ('w word, 's) Process)" where
  "HandleStackOverflow_grow vm p addition =
     (let size_increase = RoundUpToPowerOfTwo addition;
          size_increase = max 256 size_increase
      in case stack p of
           Inl e \<Rightarrow> Inl e
         | Inr (oa, old_stack) \<Rightarrow>
             let new_size = as_int (Stack_length old_stack + size_increase)
             in if new_size > sint (MaxStackSizeInWords vm) then Inr (kStackCheckOverflow, p)
                else case NewStack vm p new_size of
                       Inl e \<Rightarrow> Inl e
                     | Inr (new_stack_object, p1) \<Rightarrow>
                         if new_stack_object = Failure retry_after_gc
                         then (case CollectMutableGarbage vm p1 of
                                 Inl e \<Rightarrow> Inl e
                               | Inr p2 \<Rightarrow>
                                   (case NewStack vm p2 new_size of
                                      Inl e \<Rightarrow> Inl e
                                    | Inr (new_stack_object, p3) \<Rightarrow>
                                        if new_stack_object = Failure retry_after_gc
                                        then Inr (kStackCheckOverflow, p3)
                                        else HandleStackOverflow_install vm p3 new_stack_object))
                         else HandleStackOverflow_install vm p1 new_stack_object)"

text \<open>One marker is served: it is cleared and the limit recomputed (lines 173 to 189).\<close>

definition HandleStackOverflow_marker ::
  "('w::len word, 's) VM \<Rightarrow> ('w word, 's) Process \<Rightarrow> 'w word \<Rightarrow> StackCheckResult \<Rightarrow>
     error + (StackCheckResult \<times> ('w word, 's) Process)" where
  "HandleStackOverflow_marker vm p marker result =
     (case ClearStackMarker marker p of
        Inl e \<Rightarrow> Inl e
      | Inr p1 \<Rightarrow>
          (case UpdateStackLimit vm p1 of
             Inl e \<Rightarrow> Inl e
           | Inr p2 \<Rightarrow> Inr (result, p2)))"

definition HandleStackOverflow ::
  "('w::len word, 's) VM \<Rightarrow> ('w word, 's) Process \<Rightarrow> int \<Rightarrow>
     error + (StackCheckResult \<times> ('w word, 's) Process)" where
  "HandleStackOverflow vm p addition =
     (let current_limit = stack_limit p
      in if current_limit \<ge> kMaxStackMarker \<and> current_limit AND kPreemptMarker \<noteq> 0
         then HandleStackOverflow_marker vm p kPreemptMarker kStackCheckInterrupt
         else if current_limit \<ge> kMaxStackMarker \<and> current_limit AND kDebugInterruptMarker \<noteq> 0
         then HandleStackOverflow_marker vm p kDebugInterruptMarker kStackCheckDebugInterrupt
         else if current_limit \<ge> kMaxStackMarker \<and> current_limit AND kProfileMarker \<noteq> 0
         then HandleStackOverflow_marker vm p kProfileMarker kStackCheckContinue
         else HandleStackOverflow_grow vm p addition)"

text \<open>The top \<open>h\<close> words of the current stack, \<open>h\<close> its height: what \<^verbatim>\<open>memcpy\<close> copies.\<close>

definition live_words :: "('u, 's) Process \<Rightarrow> object list" where
  "live_words p =
     (case stack p of Inl e \<Rightarrow> [] | Inr (a, s) \<Rightarrow> drop (nat (stack_top s)) (words s))"

section \<open>Sequences of operations on the stack limit\<close>

datatype 'u limit_op = OpSetStackMarker 'u | OpClearStackMarker 'u | OpUpdateStackLimit

fun apply_limit_op ::
  "('w::len word, 's) VM \<Rightarrow> ('w word, 's) Process \<Rightarrow> 'w word limit_op \<Rightarrow>
     error + ('w word, 's) Process" where
  "apply_limit_op vm p (OpSetStackMarker marker) = Inr (SetStackMarker marker p)"
| "apply_limit_op vm p (OpClearStackMarker marker) = ClearStackMarker marker p"
| "apply_limit_op vm p OpUpdateStackLimit = UpdateStackLimit vm p"

fun apply_limit_ops ::
  "('w::len word, 's) VM \<Rightarrow> ('w word, 's) Process \<Rightarrow> 'w word limit_op list \<Rightarrow>
     error + ('w word, 's) Process" where
  "apply_limit_ops vm p [] = Inr p"
| "apply_limit_ops vm p (x # xs) =
     (case apply_limit_op vm p x of Inl e \<Rightarrow> Inl e | Inr p1 \<Rightarrow> apply_limit_ops vm p1 xs)"

text \<open>
  The values of the limit word that are not limits: \<^verbatim>\<open>kMaxStackMarker\<close> together with
  one or more of the three marker bits.
\<close>

definition marker_bits :: "'w::len word list" where
  "marker_bits = [kPreemptMarker, kProfileMarker, kDebugInterruptMarker]"

definition sentinel_values :: "'w::len word list" where
  "sentinel_values =
     map (\<lambda>ms. fold (OR) ms kMaxStackMarker) (filter (\<lambda>ms. ms \<noteq> []) (subseqs marker_bits))"

text \<open>
  The real limit of the process: the address that \<^verbatim>\<open>UpdateStackLimit\<close> computes from the
  current stack.
\<close>

definition real_limit :: "('w::len word, 's) VM \<Rightarrow> ('w word, 's) Process \<Rightarrow> 'w word" where
  "real_limit vm p =
     (case stack p of
        Inl e \<Rightarrow> 0
      | Inr (a, s) \<Rightarrow> Pointer vm (space (heap p)) a (kGuaranteedFrameSize vm + 2))"

text \<open>
  The states of the limit word: the real limit of the current stack; a sentinel value,
  with one or more markers pending; or \<^verbatim>\<open>kMaxStackMarker\<close> alone, when the last pending
  marker has been cleared and the limit not yet recomputed.
\<close>

definition limit_invariant :: "('w::len word, 's) VM \<Rightarrow> ('w word, 's) Process \<Rightarrow> bool" where
  "limit_invariant vm p =
     (stack_limit p = real_limit vm p \<or> stack_limit p = kMaxStackMarker \<or>
      stack_limit p \<in> set sentinel_values)"

text \<open>
  \<^verbatim>\<open>ClearStackMarker\<close> is called from \<^verbatim>\<open>HandleStackOverflow\<close> only (lines 174, 180 and
  186): with one of the three markers, and after the test of line 172 that the word is
  at least \<^verbatim>\<open>kMaxStackMarker\<close>. \<open>clears_at_sentinel\<close> says that every
  \<^verbatim>\<open>ClearStackMarker\<close> of a sequence of operations is called in this way.
\<close>

fun clears_at_sentinel ::
  "('w::len word, 's) VM \<Rightarrow> ('w word, 's) Process \<Rightarrow> 'w word limit_op list \<Rightarrow> bool" where
  "clears_at_sentinel vm p [] = True"
| "clears_at_sentinel vm p (x # xs) =
     ((case x of
         OpClearStackMarker marker \<Rightarrow> marker \<in> set marker_bits \<and> kMaxStackMarker \<le> stack_limit p
       | _ \<Rightarrow> True) \<and>
      (case apply_limit_op vm p x of
         Inl e \<Rightarrow> True
       | Inr p1 \<Rightarrow> clears_at_sentinel vm p1 xs))"

section \<open>Signals\<close>

text \<open>
  \<^verbatim>\<open>SendSignal\<close> loops while the slot is null. Other threads run \<^verbatim>\<open>SendSignal\<close> on the
  same process at the same time: the schedule says, for each exchange of this call that
  fails, why it fails. Either the weak exchange fails spuriously and the slot is still
  null, or another thread has installed its signal between the load and the exchange.
  When the schedule is used up the exchange succeeds.

  Modelled from the spec: \<^verbatim>\<open>Signal::DecrementRef\<close> is not among the sources; it
  "decrements the ref count" of the signal.
\<close>

datatype exchange_failure = Spurious | InstalledByOther nat

definition Signal_DecrementRef :: "('u, 's) Process \<Rightarrow> nat \<Rightarrow> ('u, 's) Process" where
  "Signal_DecrementRef p sig = p\<lparr>signal_refs := (signal_refs p)(sig := signal_refs p sig - 1)\<rparr>"

fun SendSignal :: "exchange_failure list \<Rightarrow> ('u, 's) Process \<Rightarrow> nat \<Rightarrow> ('u, 's) Process" where
  "SendSignal schedule p sig =
     (if signal p = None
      then (case schedule of
              [] \<Rightarrow> p\<lparr>signal := Some sig\<rparr>
            | Spurious # rest \<Rightarrow> SendSignal rest p sig
            | InstalledByOther other # rest \<Rightarrow> SendSignal rest (p\<lparr>signal := Some other\<rparr>) sig)
      else Signal_DecrementRef p sig)"

text \<open>The signal that is in the slot before this call can install its own, if any.\<close>

fun first_installed :: "exchange_failure list \<Rightarrow> nat option" where
  "first_installed [] = None"
| "first_installed (Spurious # rest) = first_installed rest"
| "first_installed (InstalledByOther other # rest) = Some other"

section \<open>Lookup cache\<close>

text \<open>
  \<^verbatim>\<open>Class::LookupMethod\<close>, \<^verbatim>\<open>Function::ComputeIntrinsic\<close> (a pointer, 0 for null),
  \<^verbatim>\<open>LookupCache::ComputeSecondaryIndex\<close> and the selector
  \<^verbatim>\<open>Selector::Encode(Names::kNoSuchMethodTrampoline, Selector::METHOD, 0)\<close> are
  parameters. The argument \<^verbatim>\<open>primary\<close> points into the primary table: it is an index.

  Modelled from the spec: \<^verbatim>\<open>LookupCache::DemotePrimary\<close> is not among the sources; "the
  primary entry being evicted is copied into the secondary", at the index of its keys.
\<close>

record 'u Dispatch =
  LookupMethod :: "addr \<Rightarrow> int \<Rightarrow> addr option"
  ComputeIntrinsic :: "addr \<Rightarrow> 'u"
  ComputeSecondaryIndex :: "addr option \<Rightarrow> int \<Rightarrow> nat"
  noSuchMethodTrampoline_selector :: int

definition DemotePrimary :: "'u Dispatch \<Rightarrow> 'u LookupCache \<Rightarrow> nat \<Rightarrow> 'u LookupCache" where
  "DemotePrimary d c i =
     (let e = primary c i
      in c\<lparr>secondary := (secondary c)(ComputeSecondaryIndex d (clazz e) (selector e) := e)\<rparr>)"

definition LookupEntrySlow ::
  "'w::len word Dispatch \<Rightarrow> ('w word, 's) Process \<Rightarrow> nat \<Rightarrow> addr \<Rightarrow> int \<Rightarrow>
     error + ('w word Entry \<times> ('w word, 's) Process)" where
  "LookupEntrySlow d p primary_index cls sel =
     (if is_compact (program p) then Inl AssertionFailed
      else case thread_state p of
             None \<Rightarrow> Inl AssertionFailed
           | Some state \<Rightarrow>
      (case cache state of
             None \<Rightarrow> Inl NullPointer
           | Some c \<Rightarrow>
      (let index = ComputeSecondaryIndex d (Some cls) sel;
           secondary_entry = secondary c index
       in if clazz secondary_entry = Some cls \<and> selector secondary_entry = sel
          then Inr (secondary_entry, p)
          else let tag0 = 0;
                   target0 = LookupMethod d cls sel;
                   (target1, tag1) =
                      (case target0 of
                         None \<Rightarrow> (LookupMethod d cls (noSuchMethodTrampoline_selector d), tag0)
                       | Some f \<Rightarrow>
                           (let intrinsic = ComputeIntrinsic d f
                            in (target0, if intrinsic = 0 then 1 else intrinsic)))
               in if target1 = None then Inl AssertionFailed
                  else let c1 = DemotePrimary d c primary_index;
                           entry = \<lparr>clazz = Some cls, selector = sel, target = target1, tag = tag1\<rparr>;
                           c2 = c1\<lparr>primary := (primary c1)(primary_index := entry)\<rparr>
                       in Inr (entry, p\<lparr>thread_state := Some (state\<lparr>cache := Some c2\<rparr>)\<rparr>))))"

section \<open>Receiving a message\<close>

text \<open>
  Modelled from the spec: the mailbox is not among the sources. It is a queue ordered by
  arrival; the current message is its head (null when the queue is empty) and
  \<^verbatim>\<open>AdvanceCurrentMessage\<close> drops it. The methods of \<^verbatim>\<open>Instance\<close>, \<^verbatim>\<open>Message\<close> and
  \<^verbatim>\<open>ProcessHandle\<close> that fill the new objects are parameters; \<^verbatim>\<open>AddWeakPointer\<close> adds an
  entry to the weak-pointer list of the heap and \<^verbatim>\<open>AllocatedForeignMemory\<close> adds to
  its counter (spec 3 and 4.2).
\<close>

record 's Natives =
  NumberOfInstanceFields :: "addr \<Rightarrow> int"
  SetConsecutiveSmis :: "object list \<Rightarrow> int \<Rightarrow> int \<Rightarrow> object list"
  InitializeDartObject :: "nat \<Rightarrow> object list \<Rightarrow> object list"
  MergeChildHeaps :: "Message \<Rightarrow> 's Heap \<Rightarrow> 's Heap"

definition Heap_Includes :: "'s Heap \<Rightarrow> addr \<Rightarrow> bool" where
  "Heap_Includes h a = (objects h a \<noteq> None)"

definition AddWeakPointer :: "'s Heap \<Rightarrow> addr \<Rightarrow> finalizer \<Rightarrow> 's Heap" where
  "AddWeakPointer h a callback = h\<lparr>weak_pointers := (a, callback) # weak_pointers h\<rparr>"

definition AllocatedForeignMemory :: "'s Heap \<Rightarrow> int \<Rightarrow> 's Heap" where
  "AllocatedForeignMemory h n = h\<lparr>foreign_memory := foreign_memory h + n\<rparr>"

definition RegisterFinalizer ::
  "('u, 's) Process \<Rightarrow> addr \<Rightarrow> finalizer \<Rightarrow> error + ('u, 's) Process" where
  "RegisterFinalizer p a callback =
     (if Heap_Includes (heap p) a then Inr (p\<lparr>heap := AddWeakPointer (heap p) a callback\<rparr>)
      else case immutable_heap p of
             None \<Rightarrow> Inl NullPointer
           | Some ih \<Rightarrow>
               if Heap_Includes ih a
               then Inr (p\<lparr>immutable_heap := Some (AddWeakPointer ih a callback)\<rparr>)
               else Inl AssertionFailed)"

text \<open>An instance lives in the heap of the process or in its immutable heap.\<close>

definition Instance_cast :: "('u, 's) Process \<Rightarrow> object \<Rightarrow> error + (addr \<times> addr \<times> object list)" where
  "Instance_cast p ob =
     (case ob of
        HeapObject a \<Rightarrow>
          (case objects (heap p) a of
             Some (InstanceObject k fs) \<Rightarrow> Inr (a, k, fs)
           | Some other \<Rightarrow> Inl CastFailed
           | None \<Rightarrow>
               (case immutable_heap p of
                  None \<Rightarrow> Inl CastFailed
                | Some ih \<Rightarrow>
                    (case objects ih a of
                       Some (InstanceObject k fs) \<Rightarrow> Inr (a, k, fs)
                     | _ \<Rightarrow> Inl CastFailed)))
      | _ \<Rightarrow> Inl CastFailed)"

definition store_instance ::
  "('u, 's) Process \<Rightarrow> addr \<Rightarrow> addr \<Rightarrow> object list \<Rightarrow> ('u, 's) Process" where
  "store_instance p a k fs =
     (if Heap_Includes (heap p) a
      then p\<lparr>heap := (heap p)\<lparr>objects := (objects (heap p))(a \<mapsto> InstanceObject k fs)\<rparr>\<rparr>
      else case immutable_heap p of
             None \<Rightarrow> p
           | Some ih \<Rightarrow>
               p\<lparr>immutable_heap := Some (ih\<lparr>objects := (objects ih)(a \<mapsto> InstanceObject k fs)\<rparr>)\<rparr>)"

definition SetInstanceField ::
  "('u, 's) Process \<Rightarrow> object \<Rightarrow> nat \<Rightarrow> object \<Rightarrow> error + ('u, 's) Process" where
  "SetInstanceField p ob i v =
     (case Instance_cast p ob of
        Inl e \<Rightarrow> Inl e
      | Inr (a, k, fs) \<Rightarrow>
          if i < length fs then Inr (store_instance p a k (fs[i := v])) else Inl IndexOutOfRange)"

text \<open>
  The body of the \<^verbatim>\<open>switch\<close>: either the native returns at once (an allocation has
  answered \<^verbatim>\<open>retry_after_gc\<close>), or the payload is there and control reaches the end of
  the \<^verbatim>\<open>switch\<close>. The \<^verbatim>\<open>default\<close> branch is for values outside the enumeration.
\<close>

datatype outcome = Returned object | Materialized object

definition materialize_foreign ::
  "('u, 's) VM \<Rightarrow> 's Natives \<Rightarrow> ('u, 's) Process \<Rightarrow> Message \<Rightarrow>
     error + (outcome \<times> ('u, 's) Process)" where
  "materialize_foreign vm nv p queue =
     (let foreign_memory_class = foreign_memory_class (program p)
      in if NumberOfInstanceFields nv foreign_memory_class \<noteq> 4 then Inl AssertionFailed
         else case NewInstance vm p foreign_memory_class False of
                Inl e \<Rightarrow> Inl e
              | Inr (ob, p1) \<Rightarrow>
         if ob = Failure retry_after_gc then Inr (Returned ob, p1)
         else case Instance_cast p1 ob of
                Inl e \<Rightarrow> Inl e
              | Inr (a, k, fs) \<Rightarrow>
         (let p2 = store_instance p1 a k (SetConsecutiveSmis nv fs 0 (msg_value queue));
              size = msg_size queue
          in case SetInstanceField p2 ob 2 (Smi size) of
               Inl e \<Rightarrow> Inl e
             | Inr p3 \<Rightarrow>
                 if kind queue = FOREIGN_FINALIZED
                 then (case RegisterFinalizer p3 a FinalizeForeign of
                         Inl e \<Rightarrow> Inl e
                       | Inr p4 \<Rightarrow>
                           Inr (Materialized ob, p4\<lparr>heap := AllocatedForeignMemory (heap p4) size\<rparr>))
                 else Inr (Materialized ob, p3)))"

definition materialize_process_death ::
  "('u, 's) VM \<Rightarrow> 's Natives \<Rightarrow> ('u, 's) Process \<Rightarrow> Message \<Rightarrow>
     error + (outcome \<times> ('u, 's) Process)" where
  "materialize_process_death vm nv p queue =
     (let sig = ProcessDeathSignal queue;
          h = handle sig
      in case NewInstance vm p (process_class (program p)) True of
           Inl e \<Rightarrow> Inl e
         | Inr (dart_process, p1) \<Rightarrow>
      if dart_process = Failure retry_after_gc then Inr (Returned dart_process, p1)
      else case NewInstance vm p1 (process_death_class (program p1)) True of
           Inl e \<Rightarrow> Inl e
         | Inr (process_death, p2) \<Rightarrow>
      if process_death = Failure retry_after_gc then Inr (Returned process_death, p2)
      else (let p3 = p2\<lparr>handle_refs := (handle_refs p2)(h := handle_refs p2 h + 1)\<rparr>
            in case Instance_cast p3 dart_process of
                 Inl e \<Rightarrow> Inl e
               | Inr (a, k, fs) \<Rightarrow>
            (let p4 = store_instance p3 a k (InitializeDartObject nv h fs)
             in case SetInstanceField p4 process_death 0 dart_process of
                  Inl e \<Rightarrow> Inl e
                | Inr p5 \<Rightarrow>
             (case SetInstanceField p5 process_death 1 (Smi (signal_kind sig)) of
                  Inl e \<Rightarrow> Inl e
                | Inr p6 \<Rightarrow>
             (case RegisterFinalizer p6 a FinalizeProcess of
                  Inl e \<Rightarrow> Inl e
                | Inr p7 \<Rightarrow> Inr (Materialized process_death, p7))))))"

definition materialize ::
  "('u, 's) VM \<Rightarrow> 's Natives \<Rightarrow> ('u, 's) Process \<Rightarrow> Message \<Rightarrow>
     error + (outcome \<times> ('u, 's) Process)" where
  "materialize vm nv p queue =
     (case kind queue of
        IMMEDIATE \<Rightarrow> Inr (Materialized (value_object queue), p)
      | IMMUTABLE_OBJECT \<Rightarrow> Inr (Materialized (value_object queue), p)
      | FOREIGN \<Rightarrow> materialize_foreign vm nv p queue
      | FOREIGN_FINALIZED \<Rightarrow> materialize_foreign vm nv p queue
      | LARGE_INTEGER \<Rightarrow>
          (case NewInteger vm p (msg_value queue) of
             Inl e \<Rightarrow> Inl e
           | Inr (result, p1) \<Rightarrow>
               if result = Failure retry_after_gc then Inr (Returned result, p1)
               else Inr (Materialized result, p1))
      | EXIT \<Rightarrow>
          Inr (Materialized (ExitReferenceObject queue), p\<lparr>heap := MergeChildHeaps nv queue (heap p)\<rparr>)
      | PROCESS_DEATH_SIGNAL \<Rightarrow> materialize_process_death vm nv p queue)"

definition AdvanceCurrentMessage :: "('u, 's) Process \<Rightarrow> ('u, 's) Process" where
  "AdvanceCurrentMessage p = p\<lparr>mailbox := tl (mailbox p)\<rparr>"

definition ProcessQueueGetMessage ::
  "('u, 's) VM \<Rightarrow> 's Natives \<Rightarrow> ('u, 's) Process \<Rightarrow> error + (object \<times> ('u, 's) Process)" where
  "ProcessQueueGetMessage vm nv p =
     (case mailbox p of
        [] \<Rightarrow> Inl NullPointer
      | queue # rest \<Rightarrow>
          (case materialize vm nv p queue of
             Inl e \<Rightarrow> Inl e
           | Inr (Returned result, p1) \<Rightarrow> Inr (result, p1)
           | Inr (Materialized result, p1) \<Rightarrow> Inr (result, AdvanceCurrentMessage p1)))"

text \<open>Whether one of the allocations logged after the first \<open>n\<close> events was refused.\<close>

definition allocation_refused :: "nat \<Rightarrow> event list \<Rightarrow> bool" where
  "allocation_refused n evs =
     (\<exists>f \<in> set [kNewArray, kNewInstance, kNewInteger, kNewStack].
        Allocation f (Failure retry_after_gc) \<in> set (drop n evs))"

section \<open>Cooking and uncooking the stacks\<close>

text \<open>
  Modelled from the spec: \<^verbatim>\<open>Frame\<close>, \<^verbatim>\<open>Function\<close> and \<^verbatim>\<open>List\<close> are not among the
  sources. "Each frame contains a byte-code pointer (BCP), a frame-pointer link, and
  operand/local slots": the frames that \<^verbatim>\<open>MovePrevious\<close> visits on a stack are given by
  the positions of their byte-code pointer slots, top frame first. Neither function
  writes a frame-pointer link, so the positions belong to the stack object.
  \<^verbatim>\<open>FunctionFromByteCodePointer\<close> and \<^verbatim>\<open>bytecode_address_for\<close> are parameters; the
  second changes when a program collection moves the function. \<^verbatim>\<open>List<int>::New(n)\<close> is
  a list of \<open>n\<close> integers, and an index outside it fails.
\<close>

record Code =
  FunctionFromByteCodePointer :: "int \<Rightarrow> addr"
  bytecode_address_for :: "addr \<Rightarrow> int \<Rightarrow> int"
  IsFunction :: "addr \<Rightarrow> bool"
  ByteCodePointerSlots :: "addr \<Rightarrow> nat list"

fun CookFrames ::
  "Code \<Rightarrow> nat list \<Rightarrow> object list \<Rightarrow> int list \<Rightarrow> nat \<Rightarrow> error + (object list \<times> int list)" where
  "CookFrames code [] ws deltas index = Inr (ws, deltas)"
| "CookFrames code (slot # frames) ws deltas index =
     (if length ws \<le> slot then Inl IndexOutOfRange
      else case ws ! slot of
             RawWord bcp \<Rightarrow>
               (let function = FunctionFromByteCodePointer code bcp;
                    start = bytecode_address_for code function 0;
                    ws1 = ws[slot := HeapObject function];
                    delta = bcp - start
                in if length deltas \<le> index then Inl IndexOutOfRange
                   else CookFrames code frames ws1 (deltas[index := delta]) (index + 1))
           | _ \<Rightarrow> Inl CastFailed)"

fun CookStacks_loop ::
  "Code \<Rightarrow> nat \<Rightarrow> nat \<Rightarrow> object \<Rightarrow> ('u, 's) Process \<Rightarrow> error + (object \<times> ('u, 's) Process)" where
  "CookStacks_loop code 0 i raw_current p = Inr (raw_current, p)"
| "CookStacks_loop code (Suc n) i raw_current p =
     (case Stack_cast (heap p) raw_current of
        Inl e \<Rightarrow> Inl e
      | Inr (a, current) \<Rightarrow>
     (case stack p of
        Inl e \<Rightarrow> Inl e
      | Inr (sa, s) \<Rightarrow>
          if length (cooked_stack_deltas p) \<le> i then Inl IndexOutOfRange
          else case CookFrames code (ByteCodePointerSlots code a) (words current)
                      (replicate (nat (Stack_length s)) 0) 0 of
                 Inl e \<Rightarrow> Inl e
               | Inr (ws, deltas) \<Rightarrow>
                   CookStacks_loop code n (i + 1) (stack_next current)
                     (p\<lparr>heap := (heap p)\<lparr>objects :=
                                   (objects (heap p))(a \<mapsto> StackObject (current\<lparr>words := ws\<rparr>))\<rparr>,
                        cooked_stack_deltas := (cooked_stack_deltas p)[i := deltas]\<rparr>)))"

definition CookStacks :: "Code \<Rightarrow> ('u, 's) Process \<Rightarrow> int \<Rightarrow> error + ('u, 's) Process" where
  "CookStacks code p number_of_stacks =
     (let p0 = p\<lparr>cooked_stack_deltas := replicate (nat number_of_stacks) []\<rparr>
      in case stack p0 of
           Inl e \<Rightarrow> Inl e
         | Inr (a, s) \<Rightarrow>
             (case CookStacks_loop code (nat number_of_stacks) 0 (HeapObject a) p0 of
                Inl e \<Rightarrow> Inl e
              | Inr (raw_current, p1) \<Rightarrow>
                  if raw_current \<noteq> Smi 0 then Inl AssertionFailed else Inr p1))"

fun UncookFrames ::
  "Code \<Rightarrow> nat list \<Rightarrow> object list \<Rightarrow> int list \<Rightarrow> nat \<Rightarrow> error + object list" where
  "UncookFrames code [] ws deltas index = Inr ws"
| "UncookFrames code (slot # frames) ws deltas index =
     (if length ws \<le> slot then Inl IndexOutOfRange
      else let v = ws ! slot
           in if v = Smi 0 then Inl AssertionFailed
              else case v of
                     HeapObject function \<Rightarrow>
                       if \<not> IsFunction code function then Inl CastFailed
                       else if length deltas \<le> index then Inl IndexOutOfRange
                       else (let delta = deltas ! index;
                                 bcp = bytecode_address_for code function 0 + delta
                             in UncookFrames code frames (ws[slot := RawWord bcp]) deltas (index + 1))
                   | _ \<Rightarrow> Inl CastFailed)"

fun UncookAndUnchainStacks_loop ::
  "Code \<Rightarrow> nat \<Rightarrow> nat \<Rightarrow> object \<Rightarrow> ('u, 's) Process \<Rightarrow> error + (object \<times> ('u, 's) Process)" where
  "UncookAndUnchainStacks_loop code 0 i raw_current p = Inr (raw_current, p)"
| "UncookAndUnchainStacks_loop code (Suc n) i raw_current p =
     (case Stack_cast (heap p) raw_current of
        Inl e \<Rightarrow> Inl e
      | Inr (a, current) \<Rightarrow>
          if length (cooked_stack_deltas p) \<le> i then Inl IndexOutOfRange
          else case UncookFrames code (ByteCodePointerSlots code a) (words current)
                      (cooked_stack_deltas p ! i) 0 of
                 Inl e \<Rightarrow> Inl e
               | Inr ws \<Rightarrow>
                   UncookAndUnchainStacks_loop code n (i + 1) (stack_next current)
                     (p\<lparr>heap := (heap p)\<lparr>objects :=
                                   (objects (heap p))(a \<mapsto>
                                      StackObject (current\<lparr>words := ws, stack_next := Smi 0\<rparr>))\<rparr>,
                        cooked_stack_deltas := (cooked_stack_deltas p)[i := []]\<rparr>))"

definition UncookAndUnchainStacks :: "Code \<Rightarrow> ('u, 's) Process \<Rightarrow> error + ('u, 's) Process" where
  "UncookAndUnchainStacks code p =
     (case stack p of
        Inl e \<Rightarrow> Inl e
      | Inr (a, s) \<Rightarrow>
          (case UncookAndUnchainStacks_loop code (length (cooked_stack_deltas p)) 0 (HeapObject a) p of
             Inl e \<Rightarrow> Inl e
           | Inr (raw_current, p1) \<Rightarrow>
               if raw_current \<noteq> Smi 0 then Inl AssertionFailed
               else Inr (p1\<lparr>cooked_stack_deltas := []\<rparr>)))"

section \<open>Vocabulary of the properties\<close>

text \<open>A marker is pending: the limit word is a sentinel and one of the three bits is set.\<close>

definition marker_pending :: "'w::len word \<Rightarrow> bool" where
  "marker_pending w =
     (kMaxStackMarker \<le> w \<and>
      (w AND kPreemptMarker \<noteq> 0 \<or> w AND kDebugInterruptMarker \<noteq> 0 \<or> w AND kProfileMarker \<noteq> 0))"


text \<open>
  An answer of the allocator to a request for a stack of \<open>n\<close> words: it refuses with
  \<^verbatim>\<open>retry_after_gc\<close>, or it gives a stack of \<open>n\<close> words at an address that is not in use
  in the heap \<open>h\<close>.
\<close>

definition stack_answer :: "'s Heap \<Rightarrow> int \<Rightarrow> allocation \<Rightarrow> bool" where
  "stack_answer h n r =
     (case r of
        AllocationFailure f \<Rightarrow> f = retry_after_gc
      | Allocated a ob \<Rightarrow>
          objects h a = None \<and> (case ob of StackObject st \<Rightarrow> Stack_length st = n | _ \<Rightarrow> False))"

text \<open>
  The current stack of \<open>p1\<close> is the stack \<open>old\<close> (object \<open>oa\<close>) grown to \<open>n\<close> words: it is
  in the store buffer, has \<open>n\<close> words and the height of \<open>old\<close>, and its words are the copy
  of the live words of \<open>old\<close> to its top, as rewritten by \<^verbatim>\<open>UpdateFramePointers\<close>.
\<close>

abbreviation grown ::
  "('u, 's) VM \<Rightarrow> addr \<Rightarrow> Stack \<Rightarrow> int \<Rightarrow> ('u, 's) Process \<Rightarrow> bool" where
  "grown vm oa old n p1 \<equiv>
     \<exists>a ns copied.
       stack p1 = Inr (a, ns) \<and> a \<in> set (store_buffer p1) \<and> Stack_length ns = n \<and>
       stack_top ns = n - (Stack_length old - stack_top old) \<and>
       length copied = nat n \<and>
       drop (nat (stack_top ns)) copied = drop (nat (stack_top old)) (words old) \<and>
       words ns = rewrite_words
                    (UpdateFramePointers vm (space (heap p1)) a (ns\<lparr>words := copied\<rparr>) oa old) copied \<and>
       (\<forall>j < nat (Stack_length old - stack_top old).
          nat (stack_top ns) + j
            \<notin> fst ` set (UpdateFramePointers vm (space (heap p1)) a (ns\<lparr>words := copied\<rparr>) oa old) \<longrightarrow>
          words ns ! (nat (stack_top ns) + j) = words old ! (nat (stack_top old) + j))"

text \<open>
  The entry of the secondary table that \<^verbatim>\<open>LookupEntrySlow\<close> looks at first, and whether
  it is the entry of the class and the selector.
\<close>

definition secondary_entry ::
  "'u Dispatch \<Rightarrow> ('u, 's) Process \<Rightarrow> addr \<Rightarrow> int \<Rightarrow> 'u Entry option" where
  "secondary_entry d p cls sel =
     (case thread_state p of
        None \<Rightarrow> None
      | Some state \<Rightarrow>
          (case cache state of
             None \<Rightarrow> None
           | Some c \<Rightarrow> Some (secondary c (ComputeSecondaryIndex d (Some cls) sel))))"

definition secondary_hit :: "'u Dispatch \<Rightarrow> ('u, 's) Process \<Rightarrow> addr \<Rightarrow> int \<Rightarrow> bool" where
  "secondary_hit d p cls sel =
     (case secondary_entry d p cls sel of
        None \<Rightarrow> False
      | Some e \<Rightarrow> clazz e = Some cls \<and> selector e = sel)"

text \<open>
  What uncooking makes of a byte-code pointer slot that was cooked: the pointer at the
  same distance from the first byte code of its function, where the function is now.
  \<open>restored_words\<close> does this to the byte-code pointer slots of the frames of a stack.
\<close>

definition relocate_bcp :: "Code \<Rightarrow> Code \<Rightarrow> object \<Rightarrow> object" where
  "relocate_bcp code code' v =
     (case v of
        RawWord bcp \<Rightarrow>
          (let function = FunctionFromByteCodePointer code bcp
           in RawWord (bytecode_address_for code' function 0 + (bcp - bytecode_address_for code function 0)))
      | _ \<Rightarrow> v)"

primrec restored_words :: "Code \<Rightarrow> Code \<Rightarrow> nat list \<Rightarrow> object list \<Rightarrow> object list" where
  "restored_words code code' [] ws = ws"
| "restored_words code code' (slot # frames) ws =
     (restored_words code code' frames ws)[slot := relocate_bcp code code' (ws ! slot)]"

text \<open>
  The stacks that a collection chained through their \<^verbatim>\<open>next\<close> fields, from \<open>raw\<close> to
  the end of the chain (\<open>Smi 0\<close>), with their addresses.
\<close>

fun stack_chain :: "'s Heap \<Rightarrow> object \<Rightarrow> (addr \<times> Stack) list \<Rightarrow> bool" where
  "stack_chain h raw [] = (raw = Smi 0)"
| "stack_chain h raw ((a, s) # chain) =
     (raw = HeapObject a \<and> objects h a = Some (StackObject s) \<and> stack_chain h (stack_next s) chain)"

text \<open>
  What the walk of the frames of a stack has to find, for \<open>room\<close> deltas: byte-code
  pointer slots that are distinct and inside the stack, each holding a pointer into a
  function, at most \<open>room\<close> of them; and the same slots after the code has moved.
\<close>

definition well_framed :: "Code \<Rightarrow> Code \<Rightarrow> nat \<Rightarrow> addr \<times> Stack \<Rightarrow> bool" where
  "well_framed code code' room =
     (\<lambda>(a, s).
        let slots = ByteCodePointerSlots code a
        in distinct slots \<and> ByteCodePointerSlots code' a = slots \<and> length slots \<le> room \<and>
           (\<forall>slot \<in> set slots.
              slot < length (words s) \<and>
              (case words s ! slot of
                 RawWord bcp \<Rightarrow> IsFunction code' (FunctionFromByteCodePointer code bcp)
               | _ \<Rightarrow> False)))"

text \<open>A stack of the chain after cooking and uncooking: relocated and unchained.\<close>

definition uncooked :: "Code \<Rightarrow> Code \<Rightarrow> addr \<times> Stack \<Rightarrow> heap_object" where
  "uncooked code code' =
     (\<lambda>(a, s). StackObject (s\<lparr>words := restored_words code code' (ByteCodePointerSlots code a) (words s),
                               stack_next := Smi 0\<rparr>))"

text \<open>
  The chain between cooking and uncooking: the stacks differ from the original ones in
  their words only, and uncooking these words with the deltas recorded from index \<open>i\<close>
  gives the relocated words.
\<close>

fun cooked_chain ::
  "Code \<Rightarrow> Code \<Rightarrow> 's Heap \<Rightarrow> int list list \<Rightarrow> nat \<Rightarrow> object \<Rightarrow> (addr \<times> Stack) list \<Rightarrow> bool" where
  "cooked_chain code code' h dss i raw [] = (raw = Smi 0)"
| "cooked_chain code code' h dss i raw ((a, s) # chain) =
     (raw = HeapObject a \<and> i < length dss \<and>
      (case objects h a of
         Some (StackObject t) \<Rightarrow>
           t = s\<lparr>words := words t\<rparr> \<and>
           UncookFrames code' (ByteCodePointerSlots code' a) (words t) (dss ! i) 0
             = Inr (restored_words code code' (ByteCodePointerSlots code a) (words s))
       | _ \<Rightarrow> False) \<and>
      cooked_chain code code' h dss (Suc i) (stack_next s) chain)"

section \<open>Example states\<close>

text \<open>
  A process on a 32-bit machine with one coroutine (object 1) whose stack (object 2) has
  four words, the upper two in use. The allocator of \<open>example_vm\<close> counts its calls in
  the heap layout: it refuses a stack while no collection has run when \<open>refuse\<close> is set,
  and places new objects at the address after the number of the call. Stack slot \<open>i\<close>
  of object \<open>a\<close> is at address \<open>1000 * a + 4 * i\<close>.
\<close>

definition example_program :: Program where
  "example_program =
     \<lparr>is_compact = False, null_object = HeapObject 90, array_class = 91, stack_class = 92,
      coroutine_class = 93, large_integer_class = 94, foreign_memory_class = 95,
      process_class = 96, process_death_class = 97\<rparr>"

definition example_stack :: Stack where
  "example_stack =
     \<lparr>stack_top = 2, stack_next = Smi 0, words = [Smi 0, Smi 0, RawWord 500, Smi 7]\<rparr>"

definition example_heap :: "(nat \<times> nat) Heap" where
  "example_heap =
     \<lparr>objects = [1 \<mapsto> CoroutineObject (HeapObject 2), 2 \<mapsto> StackObject example_stack],
      space = (0, 0), weak_pointers = [], foreign_memory = 0\<rparr>"

definition example_process :: "(32 word, nat \<times> nat) Process" where
  "example_process =
     \<lparr>coroutine = Some 1, stack_limit = 2056, program = example_program, store_buffer = [2],
      heap = example_heap,
      immutable_heap = Some \<lparr>objects = Map.empty, space = (0, 0), weak_pointers = [],
                             foreign_memory = 0\<rparr>,
      signal = None, mailbox = [], cooked_stack_deltas = [],
      thread_state = None, signal_refs = (\<lambda>s. 1), handle_refs = (\<lambda>h. 1), events = []\<rparr>"

definition example_allocate :: "bool \<Rightarrow> heap_object \<Rightarrow> nat \<times> nat \<Rightarrow> allocation \<times> (nat \<times> nat)" where
  "example_allocate refuse ob s =
     (case s of (calls, collections) \<Rightarrow>
        (if refuse \<and> collections = 0 then AllocationFailure retry_after_gc
         else Allocated (10 + calls) ob, (calls + 1, collections)))"

definition example_vm :: "bool \<Rightarrow> bool \<Rightarrow> (nat \<times> object) list \<Rightarrow> (32 word, nat \<times> nat) VM" where
  "example_vm refuse refuse_again rewrites =
     \<lparr>MaxStackSizeInWords = 131072,
      kGuaranteedFrameSize = 32,
      Pointer = (\<lambda>s a i. word_of_nat (1000 * a) + 4 * word_of_int i),
      CreateStack = (\<lambda>s c len.
         example_allocate (refuse \<or> refuse_again)
           (StackObject \<lparr>stack_top = len, stack_next = Smi 0, words = replicate (nat len) (Smi 0)\<rparr>)
           (if refuse_again then (fst s, 0) else s)),
      CreateArray = (\<lambda>s c len null. example_allocate refuse (ArrayObject (replicate (nat len) null)) s),
      CreateInstance = (\<lambda>s c null immutable.
         example_allocate refuse
           (if c = 93 then CoroutineObject null else InstanceObject c (replicate 4 null)) s),
      CreateLargeInteger = (\<lambda>s c v. example_allocate refuse (LargeIntegerObject v) s),
      Scavenge = (\<lambda>s sb. ((fst s, snd s + 1), sb)),
      UpdateFramePointers = (\<lambda>s na new oa old. rewrites)\<rparr>"



text \<open>
  A thread with an empty lookup cache. Class 40 has the method 71 for selector 7, with an
  intrinsic at address 4096, and the method 70 for the selector of
  \<^verbatim>\<open>noSuchMethodTrampoline\<close>, which is 99 here; it has nothing for other selectors.
\<close>

definition example_cache :: "32 word LookupCache" where
  "example_cache =
     \<lparr>primary = (\<lambda>i. \<lparr>clazz = None, selector = 0, target = None, tag = 0\<rparr>),
      secondary = (\<lambda>i. \<lparr>clazz = None, selector = 0, target = None, tag = 0\<rparr>)\<rparr>"

definition example_dispatch :: "32 word Dispatch" where
  "example_dispatch =
     \<lparr>LookupMethod = (\<lambda>c s. if c = 40 \<and> s = 7 then Some 71
                              else if c = 40 \<and> s = 99 then Some 70 else None),
      ComputeIntrinsic = (\<lambda>f. if f = 71 then 4096 else 0),
      ComputeSecondaryIndex = (\<lambda>c s. nat (s mod 64)),
      noSuchMethodTrampoline_selector = 99\<rparr>"

definition example_thread_process :: "(32 word, nat \<times> nat) Process" where
  "example_thread_process = example_process\<lparr>thread_state := Some \<lparr>cache = Some example_cache\<rparr>\<rparr>"

text \<open>A mailbox with a large integer and then a process death signal.\<close>

definition example_natives :: "(nat \<times> nat) Natives" where
  "example_natives =
     \<lparr>NumberOfInstanceFields = (\<lambda>c. 4),
      SetConsecutiveSmis = (\<lambda>fs i v. fs[nat i := Smi (v mod 1073741824), nat i + 1 := Smi (v div 1073741824)]),
      InitializeDartObject = (\<lambda>h fs. fs[0 := Smi (int h)]),
      MergeChildHeaps = (\<lambda>m h. h)\<rparr>"

definition example_message :: "MessageKind \<Rightarrow> Message" where
  "example_message k =
     \<lparr>kind = k, msg_value = 40960, msg_size = 128, value_object = Smi 40960,
      ExitReferenceObject = Smi 1, ProcessDeathSignal = \<lparr>handle = 5, signal_kind = 0\<rparr>\<rparr>"

definition example_mail_process :: "(32 word, nat \<times> nat) Process" where
  "example_mail_process =
     example_process\<lparr>mailbox := [example_message LARGE_INTEGER, example_message PROCESS_DEATH_SIGNAL]\<rparr>"

text \<open>
  Two stacks chained by a collection. The current stack (object 2) has 256 words and one
  frame. The stack of a suspended coroutine (object 3) has 1024 words and frames of
  three words each (the number of frames is a parameter of \<open>chained_code\<close>), a byte-code
  pointer in the second word of each frame. All byte-code pointers are in function 60,
  whose byte codes start at address 4096.
\<close>

definition chained_process :: "(32 word, nat \<times> nat) Process" where
  "chained_process =
     example_process\<lparr>heap := example_heap\<lparr>objects :=
        [1 \<mapsto> CoroutineObject (HeapObject 2),
         2 \<mapsto> StackObject \<lparr>stack_top = 250, stack_next = HeapObject 3,
                               words = replicate 256 (RawWord 5000)\<rparr>,
         3 \<mapsto> StackObject \<lparr>stack_top = 100, stack_next = Smi 0,
                               words = replicate 1024 (RawWord 5000)\<rparr>]\<rparr>\<rparr>"

definition chained_frames :: "nat \<Rightarrow> nat list" where
  "chained_frames frames = map (\<lambda>i. 101 + 3 * i) [0..<frames]"

definition chained_code :: "nat \<Rightarrow> Code" where
  "chained_code frames =
     \<lparr>FunctionFromByteCodePointer = (\<lambda>bcp. 60),
      bytecode_address_for = (\<lambda>f i. 4096 + i),
      IsFunction = (\<lambda>f. f = 60),
      ByteCodePointerSlots =
        (\<lambda>a. if a = 2 then [251] else if a = 3 then chained_frames frames else [])\<rparr>"

section \<open>Properties\<close>

subsection \<open>The marker constants, bit by bit\<close>

lemma kMaxStackMarker_mask: "(kMaxStackMarker :: 'w::len word) = NOT (mask 3)"
  by (simp add: kMaxStackMarker_def mask_eq_exp_minus_1)

lemma bit_kMaxStackMarker:
  "bit (kMaxStackMarker :: 'w::len word) n \<longleftrightarrow> n < LENGTH('w) \<and> 3 \<le> n"
  by (auto simp add: kMaxStackMarker_mask bit_simps)

lemma bit_kPreemptMarker: "bit (kPreemptMarker :: 'w::len word) n \<longleftrightarrow> n = 0"
  by (auto simp add: kPreemptMarker_def bit_simps)

lemma bit_kProfileMarker:
  "bit (kProfileMarker :: 'w::len word) n \<longleftrightarrow> n = 1 \<and> 1 < LENGTH('w)"
  unfolding kProfileMarker_def
  by (simp only: bit_push_bit_iff bit_1_iff possible_bit_word) auto

lemma bit_kDebugInterruptMarker:
  "bit (kDebugInterruptMarker :: 'w::len word) n \<longleftrightarrow> n = 2 \<and> 2 < LENGTH('w)"
  unfolding kDebugInterruptMarker_def
  by (simp only: bit_push_bit_iff bit_1_iff possible_bit_word) auto

lemmas bit_markers =
  bit_kMaxStackMarker bit_kPreemptMarker bit_kProfileMarker bit_kDebugInterruptMarker

lemma drop_bit_word_mono: "(a::'w::len word) \<le> b \<Longrightarrow> drop_bit n a \<le> drop_bit n b"
  unfolding word_le_nat_alt unat_drop_bit_eq
  by (simp add: drop_bit_eq_div div_le_mono)

lemma drop_bit_kMaxStackMarker:
  "drop_bit 3 (kMaxStackMarker::'w::len word) = drop_bit 3 (- 1)"
  by (rule bit_eqI) (auto simp add: bit_simps bit_markers)

lemma above_kMaxStackMarker_drop_bit:
  assumes "kMaxStackMarker \<le> (w::'w::len word)"
  shows "drop_bit 3 w = drop_bit 3 (- 1 :: 'w word)"
proof (rule antisym)
  show "drop_bit 3 w \<le> drop_bit 3 (- 1)"
    by (rule drop_bit_word_mono) simp
  show "drop_bit 3 (- 1) \<le> drop_bit 3 w"
    using drop_bit_word_mono [OF assms, of 3] by (simp add: drop_bit_kMaxStackMarker)
qed

lemma above_kMaxStackMarker_bit:
  assumes "kMaxStackMarker \<le> (w::'w::len word)" "3 \<le> n" "n < LENGTH('w)"
  shows "bit w n"
proof -
  have "bit (drop_bit 3 w) (n - 3) = bit (drop_bit 3 (- 1 :: 'w word)) (n - 3)"
    using above_kMaxStackMarker_drop_bit [OF assms(1)] by simp
  then show ?thesis
    using assms(2,3) by (simp add: bit_simps) arith
qed

lemma above_kMaxStackMarker_iff:
  "kMaxStackMarker \<le> (w::'w::len word) \<longleftrightarrow> (\<forall>n. 3 \<le> n \<and> n < LENGTH('w) \<longrightarrow> bit w n)"
proof
  assume "kMaxStackMarker \<le> w"
  then show "\<forall>n. 3 \<le> n \<and> n < LENGTH('w) \<longrightarrow> bit w n"
    by (simp add: above_kMaxStackMarker_bit)
next
  assume high: "\<forall>n. 3 \<le> n \<and> n < LENGTH('w) \<longrightarrow> bit w n"
  have "w = kMaxStackMarker OR w"
    by (rule bit_eqI) (use high in \<open>auto simp add: bit_simps bit_markers\<close>)
  then show "kMaxStackMarker \<le> w"
    by (metis le_word_or2)
qed


lemma above_kMaxStackMarker_decompose:
  assumes "kMaxStackMarker \<le> (w::'w::len word)"
  shows "w = kMaxStackMarker OR (w AND kPreemptMarker) OR (w AND kProfileMarker)
               OR (w AND kDebugInterruptMarker)"
proof (rule bit_eqI)
  fix n assume "possible_bit TYPE('w word) n"
  then have n: "n < LENGTH('w)" by simp
  show "bit w n = bit (kMaxStackMarker OR (w AND kPreemptMarker) OR (w AND kProfileMarker)
               OR (w AND kDebugInterruptMarker)) n"
  proof (cases "3 \<le> n")
    case True
    then show ?thesis
      using above_kMaxStackMarker_bit [OF assms True n] n by (simp add: bit_simps bit_markers)
  next
    case False
    then have "n = 0 \<or> n = 1 \<or> n = 2" by arith
    then show ?thesis
      using n by (auto simp add: bit_simps bit_markers)
  qed
qed

lemma and_single_bit:
  assumes m: "\<And>n. bit (m::'w::len word) n \<longleftrightarrow> n = k \<and> P"
  shows "w AND m = 0 \<or> w AND m = m"
proof (cases "bit w k \<and> P")
  case True
  have "w AND m = m"
    by (rule bit_eqI) (use True in \<open>auto simp add: bit_and_iff m\<close>)
  then show ?thesis by simp
next
  case False
  have "w AND m = 0"
    by (rule bit_eqI) (use False in \<open>auto simp add: bit_and_iff m\<close>)
  then show ?thesis by simp
qed

lemmas and_marker_cases =
  and_single_bit [of kPreemptMarker 0 True, simplified bit_kPreemptMarker, simplified]
  and_single_bit [of kProfileMarker 1 "1 < LENGTH('w)", OF bit_kProfileMarker]
  and_single_bit [of kDebugInterruptMarker 2 "2 < LENGTH('w)", OF bit_kDebugInterruptMarker]
  for w :: "'w::len word"

lemma set_sentinel_values:
  "set (sentinel_values :: 'w::len word list) =
     {kMaxStackMarker OR kPreemptMarker, kMaxStackMarker OR kProfileMarker,
      kMaxStackMarker OR kDebugInterruptMarker,
      kMaxStackMarker OR kPreemptMarker OR kProfileMarker,
      kMaxStackMarker OR kPreemptMarker OR kDebugInterruptMarker,
      kMaxStackMarker OR kProfileMarker OR kDebugInterruptMarker,
      kMaxStackMarker OR kPreemptMarker OR kProfileMarker OR kDebugInterruptMarker}"
  by (auto simp add: sentinel_values_def marker_bits_def Let_def ac_simps)

lemma sentinel_cases: "(w::'w::len word) \<le> kMaxStackMarker \<or> w \<in> set sentinel_values"
proof (cases "w \<le> kMaxStackMarker")
  case True
  then show ?thesis by simp
next
  case False
  then have ge: "kMaxStackMarker \<le> w" by simp
  have ne: "w \<noteq> kMaxStackMarker" using False by auto
  have "w \<in> set sentinel_values"
    using and_marker_cases [of w] ne
    by (subst above_kMaxStackMarker_decompose [OF ge],
        subst (asm) (3) above_kMaxStackMarker_decompose [OF ge])
       (auto simp add: set_sentinel_values)
  then show ?thesis by simp
qed

lemma sentinel_above: "(w::'w::len word) \<in> set sentinel_values \<Longrightarrow> kMaxStackMarker \<le> w"
  by (auto simp add: set_sentinel_values above_kMaxStackMarker_iff bit_simps bit_markers)

lemma sentinel_not_limit:
  assumes len: "2 < LENGTH('w::len)" and w: "(w::'w word) \<in> set sentinel_values"
  shows "\<not> w \<le> kMaxStackMarker"
proof
  assume le: "w \<le> kMaxStackMarker"
  have "kMaxStackMarker \<le> w"
    using w by (auto simp add: set_sentinel_values above_kMaxStackMarker_iff bit_simps bit_markers)
  with le have eq: "w = kMaxStackMarker" by simp
  have "bit w 0 \<or> bit w 1 \<or> bit w 2"
    using w len by (auto simp add: set_sentinel_values bit_simps bit_markers)
  then show False
    by (simp add: eq bit_markers)
qed

lemma sentinel_iff:
  "2 < LENGTH('w::len) \<Longrightarrow> (w::'w word) \<in> set sentinel_values \<longleftrightarrow> \<not> w \<le> kMaxStackMarker"
  using sentinel_not_limit [of w] sentinel_cases [of w] by auto

subsection \<open>The compare-exchange loops\<close>

lemma SetStackMarker_loop_loaded:
  "SetStackMarker_loop marker w w = (if w < kMaxStackMarker then kMaxStackMarker else w) OR marker"
  by (simp add: Let_def)

lemma ClearStackMarker_loop_loaded:
  "ClearStackMarker_loop marker w w =
     (if w AND marker = 0 then Inl AssertionFailed else Inr (w AND NOT marker))"
  by (simp add: Let_def)

lemma stack_stack_limit_update [simp]: "stack (p\<lparr>stack_limit := w\<rparr>) = stack p"
  by (simp add: stack_def split: option.splits)

lemma real_limit_stack_limit_update [simp]: "real_limit vm (p\<lparr>stack_limit := w\<rparr>) = real_limit vm p"
  by (simp add: real_limit_def split: sum.splits prod.splits)

lemma UpdateStackLimit_eq:
  "UpdateStackLimit vm p =
     (case stack p of
        Inl e \<Rightarrow> Inl e
      | Inr s \<Rightarrow> Inr (if stack_limit p \<le> kMaxStackMarker then p\<lparr>stack_limit := real_limit vm p\<rparr> else p))"
  by (auto simp add: UpdateStackLimit_def real_limit_def compare_exchange_strong_def Let_def
      split: sum.splits prod.splits)

subsection \<open>The invariant of the stack limit\<close>

lemma limit_invariant_iff:
  "limit_invariant vm p \<longleftrightarrow> stack_limit p = real_limit vm p \<or> kMaxStackMarker \<le> stack_limit p"
  using sentinel_cases [of "stack_limit p"] sentinel_above [of "stack_limit p"]
  by (auto simp add: limit_invariant_def)

lemma above_kMaxStackMarker_set: "kMaxStackMarker \<le> (if w < kMaxStackMarker then kMaxStackMarker else w) OR m"
  for w :: "'w::len word"
proof -
  have "kMaxStackMarker \<le> (if w < kMaxStackMarker then kMaxStackMarker else w)"
    by (simp add: not_less)
  also have "\<dots> \<le> (if w < kMaxStackMarker then kMaxStackMarker else w) OR m"
    by (rule le_word_or2)
  finally show ?thesis .
qed

lemma above_kMaxStackMarker_clear:
  "m \<in> set marker_bits \<Longrightarrow> kMaxStackMarker \<le> w \<Longrightarrow> kMaxStackMarker \<le> w AND NOT m"
  for w :: "'w::len word"
  unfolding above_kMaxStackMarker_iff
  by (auto simp add: bit_simps bit_markers marker_bits_def)

lemma apply_limit_op_invariant:
  fixes p :: "('w::len word, 's) Process"
  assumes "limit_invariant vm p" and "clears_at_sentinel vm p [x]" and "apply_limit_op vm p x = Inr p1"
  shows "limit_invariant vm p1"
proof (cases x)
  case (OpSetStackMarker m)
  then have "p1 = p\<lparr>stack_limit := (if stack_limit p < kMaxStackMarker then kMaxStackMarker
                                     else stack_limit p) OR m\<rparr>"
    using assms(3) by (simp add: SetStackMarker_def SetStackMarker_loop_loaded)
  then show ?thesis
    using above_kMaxStackMarker_set [of "stack_limit p" m] by (simp add: limit_invariant_iff)
next
  case (OpClearStackMarker m)
  then have guard: "m \<in> set marker_bits" "kMaxStackMarker \<le> stack_limit p"
    using assms(2) by simp_all
  have "p1 = p\<lparr>stack_limit := stack_limit p AND NOT m\<rparr>"
    using assms(3) OpClearStackMarker
    by (auto simp add: ClearStackMarker_def ClearStackMarker_loop_loaded split: if_splits)
  then show ?thesis
    using above_kMaxStackMarker_clear [OF guard] by (simp add: limit_invariant_iff)
next
  case OpUpdateStackLimit
  then have "p1 = (if stack_limit p \<le> kMaxStackMarker then p\<lparr>stack_limit := real_limit vm p\<rparr> else p)"
    using assms(3) by (auto simp add: UpdateStackLimit_eq split: sum.splits)
  then show ?thesis
    using assms(1) by (simp add: limit_invariant_iff)
qed

lemma apply_limit_ops_invariant:
  fixes p :: "('w::len word, 's) Process"
  assumes "limit_invariant vm p" and "clears_at_sentinel vm p ops" and "apply_limit_ops vm p ops = Inr p1"
  shows "limit_invariant vm p1"
  using assms
proof (induction ops arbitrary: p)
  case Nil
  then show ?case by simp
next
  case (Cons x ops)
  from Cons.prems(3) obtain q where q: "apply_limit_op vm p x = Inr q"
    and rest: "apply_limit_ops vm q ops = Inr p1"
    by (auto split: sum.splits)
  have one: "clears_at_sentinel vm p [x]"
    using Cons.prems(2) q by simp
  have more: "clears_at_sentinel vm q ops"
    using Cons.prems(2) q by simp
  from apply_limit_op_invariant [OF Cons.prems(1) one q] have "limit_invariant vm q" .
  from Cons.IH [OF this more rest] show ?case .
qed

text \<open>
  C6, as the code has it. The limit word is the real limit of the current stack, or
  \<^verbatim>\<open>kMaxStackMarker\<close> with one or more marker bits, or \<^verbatim>\<open>kMaxStackMarker\<close> alone. This
  holds after any sequence of \<^verbatim>\<open>SetStackMarker\<close>, \<^verbatim>\<open>ClearStackMarker\<close> and
  \<^verbatim>\<open>UpdateStackLimit\<close> calls that starts from such a state and in which
  \<^verbatim>\<open>ClearStackMarker\<close> is called as \<^verbatim>\<open>HandleStackOverflow\<close> calls it: with one of the three
  markers, on a word that is at least \<^verbatim>\<open>kMaxStackMarker\<close>. On the state reached,
  \<^verbatim>\<open>UpdateStackLimit\<close> leaves \<^verbatim>\<open>kMaxStackMarker\<close> with marker bits as it is, and otherwise
  (no marker bit remains) stores the real limit; it fails only when the process has no
  stack.
\<close>
theorem stack_limit_invariant:
  fixes p :: "('w::len word, 's) Process"
  assumes "2 < LENGTH('w)" and "limit_invariant vm p" and "clears_at_sentinel vm p ops"
    and "apply_limit_ops vm p ops = Inr p1"
  shows "limit_invariant vm p1 \<and>
         (case UpdateStackLimit vm p1 of
            Inl e \<Rightarrow> stack p1 = Inl e
          | Inr p2 \<Rightarrow>
              p2 = (if stack_limit p1 \<in> set sentinel_values then p1
                    else p1\<lparr>stack_limit := real_limit vm p1\<rparr>))"
proof
  show "limit_invariant vm p1"
    by (rule apply_limit_ops_invariant [OF assms(2-4)])
  show "case UpdateStackLimit vm p1 of
          Inl e \<Rightarrow> stack p1 = Inl e
        | Inr p2 \<Rightarrow>
            p2 = (if stack_limit p1 \<in> set sentinel_values then p1
                  else p1\<lparr>stack_limit := real_limit vm p1\<rparr>)"
    using assms(1) by (auto simp add: UpdateStackLimit_eq sentinel_iff split: sum.splits)
qed

lemmas marker_defs = kMaxStackMarker_def kPreemptMarker_def kProfileMarker_def kDebugInterruptMarker_def

lemmas example_defs = example_process_def example_heap_def example_stack_def example_program_def
  example_vm_def example_allocate_def

lemma stack_example_process_limit [simp]: "stack (example_process\<lparr>stack_limit := w\<rparr>) = Inr (2, example_stack)"
  by (simp add: stack_def example_process_def example_heap_def Coroutine_stack_def Stack_cast_def)

lemma stack_example_process [simp]: "stack example_process = Inr (2, example_stack)"
  by (simp add: stack_def example_process_def example_heap_def Coroutine_stack_def Stack_cast_def)

lemma example_real_limit [simp]:
  "real_limit (example_vm r1 r2 rs) (example_process\<lparr>stack_limit := w\<rparr>) = 2136"
  "real_limit (example_vm r1 r2 rs) example_process = 2136"
  by (simp_all add: real_limit_def) (simp_all add: example_process_def example_heap_def example_vm_def)

text \<open>
  A run on the example process, from its real limit 2136: preempt and profile are set,
  preempt is cleared and the limit recomputed; the profile marker is still there and the
  word stays \<open>-6\<close>. Then profile is cleared, which leaves \<^verbatim>\<open>kMaxStackMarker\<close> alone
  (\<open>-8\<close>), and the limit is recomputed: the real limit is back.
\<close>

theorem stack_limit_invariant_witness:
  "2 < LENGTH(32) \<and>
   limit_invariant (example_vm False False []) (example_process\<lparr>stack_limit := 2136\<rparr>) \<and>
   clears_at_sentinel (example_vm False False []) (example_process\<lparr>stack_limit := 2136\<rparr>)
     [OpSetStackMarker kPreemptMarker, OpSetStackMarker kProfileMarker,
      OpClearStackMarker kPreemptMarker, OpUpdateStackLimit] \<and>
   apply_limit_ops (example_vm False False []) (example_process\<lparr>stack_limit := 2136\<rparr>)
     [OpSetStackMarker kPreemptMarker, OpSetStackMarker kProfileMarker,
      OpClearStackMarker kPreemptMarker, OpUpdateStackLimit]
     = Inr (example_process\<lparr>stack_limit := - 6\<rparr>) \<and>
   limit_invariant (example_vm False False []) (example_process\<lparr>stack_limit := - 6\<rparr>) \<and>
   (- 6 :: 32 word) \<in> set sentinel_values \<and>
   UpdateStackLimit (example_vm False False []) (example_process\<lparr>stack_limit := - 6\<rparr>)
     = Inr (example_process\<lparr>stack_limit := - 6\<rparr>) \<and>
   apply_limit_ops (example_vm False False []) (example_process\<lparr>stack_limit := - 6\<rparr>)
     [OpClearStackMarker kProfileMarker, OpUpdateStackLimit]
     = Inr (example_process\<lparr>stack_limit := 2136\<rparr>)"
proof -
  let ?vm = "example_vm False False []"
  let ?ops = "[OpSetStackMarker kPreemptMarker, OpSetStackMarker kProfileMarker,
               OpClearStackMarker kPreemptMarker, OpUpdateStackLimit] :: 32 word limit_op list"
  have len: "2 < LENGTH(32)" by simp
  have init: "limit_invariant ?vm (example_process\<lparr>stack_limit := 2136\<rparr>)"
    by (simp add: limit_invariant_def)
  have guard: "clears_at_sentinel ?vm (example_process\<lparr>stack_limit := 2136\<rparr>) ?ops"
    by (simp add: SetStackMarker_def ClearStackMarker_def SetStackMarker_loop_loaded
        ClearStackMarker_loop_loaded UpdateStackLimit_eq marker_defs marker_bits_def)
  have run: "apply_limit_ops ?vm (example_process\<lparr>stack_limit := 2136\<rparr>) ?ops
     = Inr (example_process\<lparr>stack_limit := - 6\<rparr>)"
    by (simp add: SetStackMarker_def ClearStackMarker_def SetStackMarker_loop_loaded
        ClearStackMarker_loop_loaded UpdateStackLimit_eq marker_defs)
  have more: "apply_limit_ops ?vm (example_process\<lparr>stack_limit := - 6\<rparr>)
     [OpClearStackMarker kProfileMarker, OpUpdateStackLimit]
     = Inr (example_process\<lparr>stack_limit := 2136\<rparr>)"
    by (simp add: ClearStackMarker_def ClearStackMarker_loop_loaded UpdateStackLimit_eq marker_defs)
  have sentinel: "(- 6 :: 32 word) \<in> set sentinel_values"
    by (simp add: set_sentinel_values marker_defs)
  from stack_limit_invariant [OF len init guard run] sentinel
  have "limit_invariant ?vm (example_process\<lparr>stack_limit := - 6\<rparr>) \<and>
        UpdateStackLimit ?vm (example_process\<lparr>stack_limit := - 6\<rparr>)
          = Inr (example_process\<lparr>stack_limit := - 6\<rparr>)"
    by (auto split: sum.splits)
  with len init guard run more sentinel show ?thesis
    by blast
qed

text \<open>
  C6 as stated fails between \<^verbatim>\<open>ClearStackMarker\<close> and \<^verbatim>\<open>UpdateStackLimit\<close>. From the
  real limit 2136, preempt is set and cleared: the word is \<^verbatim>\<open>kMaxStackMarker\<close> (\<open>-8\<close>),
  which is not the real limit and has no marker bit.
\<close>
theorem ClearStackMarker_leaves_kMaxStackMarker:
  "apply_limit_ops (example_vm False False []) (example_process\<lparr>stack_limit := 2136\<rparr>)
     [OpSetStackMarker kPreemptMarker, OpClearStackMarker kPreemptMarker]
     = Inr (example_process\<lparr>stack_limit := - 8\<rparr>) \<and>
   real_limit (example_vm False False []) (example_process\<lparr>stack_limit := - 8\<rparr>) = 2136 \<and>
   (- 8 :: 32 word) = kMaxStackMarker \<and>
   (- 8 :: 32 word) \<noteq> 2136 \<and>
   (- 8 :: 32 word) \<notin> set sentinel_values"
  by (simp add: SetStackMarker_def ClearStackMarker_def SetStackMarker_loop_loaded
      ClearStackMarker_loop_loaded set_sentinel_values marker_defs)

text \<open>
  The assertion in \<^verbatim>\<open>ClearStackMarker\<close> does not replace the test of line 172. On a real
  limit that has the bit of the marker (here 2140, with a guaranteed frame size of 33, and
  the debug-interrupt marker) the call passes the assertion and leaves a word that is
  neither the real limit nor at least \<^verbatim>\<open>kMaxStackMarker\<close>.
\<close>

lemma ClearStackMarker_on_real_limit:
  "real_limit ((example_vm False False [])\<lparr>kGuaranteedFrameSize := 33\<rparr>)
     (example_process\<lparr>stack_limit := 2140\<rparr>) = 2140 \<and>
   ClearStackMarker kDebugInterruptMarker (example_process\<lparr>stack_limit := 2140\<rparr>)
     = Inr (example_process\<lparr>stack_limit := 2136\<rparr>) \<and>
   (2136 :: 32 word) < kMaxStackMarker"
  by (simp add: real_limit_def ClearStackMarker_def ClearStackMarker_loop_loaded marker_defs)
     (simp add: example_defs)

subsection \<open>Interrupts at the stack check\<close>

text \<open>
  C4. When the limit word is at least \<^verbatim>\<open>kMaxStackMarker\<close>, \<^verbatim>\<open>HandleStackOverflow\<close> serves
  one marker, tested in the order preempt, debug interrupt, profile: it clears the bit of
  that marker only, recomputes the limit (the real limit when no other marker is left,
  else the word keeps the other markers) and returns \<^verbatim>\<open>Interrupt\<close>, \<^verbatim>\<open>DebugInterrupt\<close> or
  \<^verbatim>\<open>Continue\<close>. Nothing but the limit word changes. With no marker bit in the word the
  call goes on to the growth of the stack.
\<close>
theorem HandleStackOverflow_serves_one_marker:
  fixes p :: "('w::len word, 's) Process"
  assumes "kMaxStackMarker \<le> stack_limit p" and "stack p = Inr (a, s)"
  shows "HandleStackOverflow vm p addition =
     (let w = stack_limit p;
          served = (\<lambda>marker result.
             Inr (result, p\<lparr>stack_limit := if w AND NOT marker = kMaxStackMarker
                                             then real_limit vm p else w AND NOT marker\<rparr>))
      in if w AND kPreemptMarker \<noteq> 0 then served kPreemptMarker kStackCheckInterrupt
         else if w AND kDebugInterruptMarker \<noteq> 0
              then served kDebugInterruptMarker kStackCheckDebugInterrupt
         else if w AND kProfileMarker \<noteq> 0 then served kProfileMarker kStackCheckContinue
         else HandleStackOverflow_grow vm p addition)"
proof -
  have above: "kMaxStackMarker \<le> stack_limit p AND NOT m"
    if "m \<in> set marker_bits" for m :: "'w word"
    using assms(1) that unfolding above_kMaxStackMarker_iff
    by (auto simp add: bit_simps bit_markers marker_bits_def)
  have serve: "HandleStackOverflow_marker vm p m r =
      Inr (r, p\<lparr>stack_limit := if stack_limit p AND NOT m = kMaxStackMarker
                                 then real_limit vm p else stack_limit p AND NOT m\<rparr>)"
    if "m \<in> set marker_bits" and "stack_limit p AND m \<noteq> 0" for m :: "'w word" and r
  proof -
    have "stack_limit p AND NOT m \<le> kMaxStackMarker \<longleftrightarrow> stack_limit p AND NOT m = kMaxStackMarker"
      using above [OF that(1)] by auto
    then show ?thesis
      using that(2) assms(2)
      by (simp add: HandleStackOverflow_marker_def ClearStackMarker_def ClearStackMarker_loop_loaded
          UpdateStackLimit_eq)
  qed
  show ?thesis
    using assms(1) serve [of kPreemptMarker] serve [of kDebugInterruptMarker] serve [of kProfileMarker]
    by (simp add: HandleStackOverflow_def Let_def marker_bits_def)
qed

text \<open>
  With preempt and profile pending (the word is \<open>-5\<close>) the first check returns
  \<^verbatim>\<open>Interrupt\<close> and leaves profile pending (\<open>-6\<close>); the second returns \<^verbatim>\<open>Continue\<close>
  and restores the real limit.
\<close>

theorem HandleStackOverflow_serves_one_marker_witness:
  "HandleStackOverflow (example_vm False False []) (example_process\<lparr>stack_limit := - 5\<rparr>) 4
     = Inr (kStackCheckInterrupt, example_process\<lparr>stack_limit := - 6\<rparr>) \<and>
   HandleStackOverflow (example_vm False False []) (example_process\<lparr>stack_limit := - 6\<rparr>) 4
     = Inr (kStackCheckContinue, example_process\<lparr>stack_limit := 2136\<rparr>)"
proof -
  have a: "kMaxStackMarker \<le> stack_limit (example_process\<lparr>stack_limit := - 5\<rparr>)"
    by (simp add: marker_defs)
  have b: "kMaxStackMarker \<le> stack_limit (example_process\<lparr>stack_limit := - 6\<rparr>)"
    by (simp add: marker_defs)
  show ?thesis
    using HandleStackOverflow_serves_one_marker [OF a stack_example_process_limit, of "example_vm False False []" 4]
          HandleStackOverflow_serves_one_marker [OF b stack_example_process_limit, of "example_vm False False []" 4]
    by (simp add: marker_defs)
qed

subsection \<open>Allocation of stacks\<close>

lemma NewStack_refused:
  assumes "CreateStack vm (space (heap p)) (stack_class (program p)) n = (AllocationFailure f, s1)"
  shows "NewStack vm p n =
     Inr (Failure f, p\<lparr>heap := (heap p)\<lparr>space := s1\<rparr>,
                       events := events p @ [Allocation kNewStack (Failure f)]\<rparr>)"
  using assms by (simp add: NewStack_def Heap_allocate_def IsFailure_def Let_def)

lemma NewStack_allocated:
  assumes "CreateStack vm (space (heap p)) (stack_class (program p)) n = (Allocated a ob, s1)"
  shows "NewStack vm p n =
     Inr (HeapObject a,
          p\<lparr>heap := (heap p)\<lparr>objects := (objects (heap p))(a \<mapsto> ob), space := s1\<rparr>,
            events := events p @ [Allocation kNewStack (HeapObject a)],
            store_buffer := StoreBuffer_Insert (store_buffer p) a\<rparr>)"
  using assms by (simp add: NewStack_def Heap_allocate_def IsFailure_def HeapObject_cast_def Let_def)

lemma NewArray_store_buffer: "store_buffer (snd (NewArray vm p n)) = store_buffer p"
  by (simp add: NewArray_def Let_def split: prod.splits)

text \<open>
  C1, as the code has it. \<^verbatim>\<open>NewStack\<close> inserts the stack that it allocates: when it returns
  a stack \<open>S\<close> that is not a failure, the store buffer is the old one with \<open>S\<close> added, and
  \<open>S\<close> is a member of it; a failure leaves the store buffer as it is. \<^verbatim>\<open>NewArray\<close> does not
  insert: it leaves the store buffer as it is, whatever it returns.
\<close>
theorem NewStack_inserts_NewArray_does_not:
  "(case NewStack vm p n of
      Inl e \<Rightarrow> False
    | Inr (S, p1) \<Rightarrow>
        if IsFailure S then store_buffer p1 = store_buffer p
        else S \<in> HeapObject ` set (store_buffer p1) \<and>
             store_buffer p1 = store_buffer p @ [case S of HeapObject a \<Rightarrow> a]) \<and>
   store_buffer (snd (NewArray vm p len)) = store_buffer p"
proof -
  obtain r s1 where r: "CreateStack vm (space (heap p)) (stack_class (program p)) n = (r, s1)"
    by (cases "CreateStack vm (space (heap p)) (stack_class (program p)) n")
  show ?thesis
    using r by (cases r)
      (simp_all add: NewStack_refused NewStack_allocated IsFailure_def StoreBuffer_Insert_def
        NewArray_store_buffer)
qed

text \<open>
  C1 as stated fails for arrays: on the example process \<^verbatim>\<open>NewArray(3)\<close> returns the
  array at address 10, which is not a failure, and 10 is not in the store buffer.
\<close>

theorem NewArray_not_inserted:
  "fst (NewArray (example_vm False False []) example_process 3) = HeapObject 10 \<and>
   \<not> IsFailure (HeapObject 10) \<and>
   10 \<notin> set (store_buffer (snd (NewArray (example_vm False False []) example_process 3)))"
  by (simp add: NewArray_def Heap_allocate_def IsFailure_def Let_def example_vm_def
      example_allocate_def example_process_def example_heap_def)

text \<open>On the same process \<^verbatim>\<open>NewStack(3)\<close> returns the stack at address 10 and inserts it.\<close>

theorem NewStack_inserts_witness:
  "NewStack (example_vm False False []) example_process 3
     = Inr (HeapObject 10,
            example_process\<lparr>heap := example_heap\<lparr>objects := (objects example_heap)(10 \<mapsto>
                 StackObject \<lparr>stack_top = 3, stack_next = Smi 0, words = [Smi 0, Smi 0, Smi 0]\<rparr>),
                 space := (1, 0)\<rparr>,
               events := [Allocation kNewStack (HeapObject 10)], store_buffer := [2, 10]\<rparr>) \<and>
   store_buffer (snd (NewArray (example_vm False False []) example_process 3)) = [2]"
proof -
  have "NewStack (example_vm False False []) example_process 3
     = Inr (HeapObject 10,
            example_process\<lparr>heap := example_heap\<lparr>objects := (objects example_heap)(10 \<mapsto>
                 StackObject \<lparr>stack_top = 3, stack_next = Smi 0, words = [Smi 0, Smi 0, Smi 0]\<rparr>),
                 space := (1, 0)\<rparr>,
               events := [Allocation kNewStack (HeapObject 10)], store_buffer := [2, 10]\<rparr>)"
    by (simp add: NewStack_def Heap_allocate_def IsFailure_def HeapObject_cast_def Let_def
        StoreBuffer_Insert_def example_vm_def example_allocate_def example_process_def
        example_heap_def numeral_3_eq_3)
  with NewStack_inserts_NewArray_does_not
         [where vm = "example_vm False False []" and p = example_process and n = 3 and len = 3]
  show ?thesis
    by (simp add: example_process_def)
qed


subsection \<open>Replacing the stack\<close>

lemma stack_InrD:
  assumes "stack p = Inr (oa, old)"
  shows "\<exists>c. coroutine p = Some c \<and> objects (heap p) c = Some (CoroutineObject (HeapObject oa)) \<and>
             objects (heap p) oa = Some (StackObject old)"
  using assms
  by (auto simp add: stack_def Coroutine_stack_def Stack_cast_def
      split: option.splits heap_object.splits object.splits)

lemma stack_InrI:
  assumes "coroutine p = Some c" "objects (heap p) c = Some (CoroutineObject (HeapObject oa))"
    "objects (heap p) oa = Some (StackObject old)"
  shows "stack p = Inr (oa, old)"
  using assms by (simp add: stack_def Coroutine_stack_def Stack_cast_def)

lemma Stack_length_update [simp]:
  "Stack_length (s\<lparr>stack_top := t\<rparr>) = Stack_length s"
  "Stack_length (s\<lparr>stack_next := x\<rparr>) = Stack_length s"
  "Stack_length (s\<lparr>words := ws\<rparr>) = int (length ws)"
  by (simp_all add: Stack_length_def)

lemma length_rewrite_words [simp]: "length (rewrite_words rs ws) = length ws"
  unfolding rewrite_words_def by (induction rs arbitrary: ws) (auto split: prod.splits)

lemma rewrite_words_untouched:
  "i \<notin> fst ` set rs \<Longrightarrow> rewrite_words rs ws ! i = ws ! i"
  unfolding rewrite_words_def
  by (induction rs arbitrary: ws) (auto split: prod.splits)

lemma memcpy_words_suffix:
  assumes "0 \<le> t" "t \<le> int (length src)" "int (length src) - t \<le> int (length dst)"
  shows "memcpy_words dst (int (length dst) - (int (length src) - t)) src t (int (length src) - t)
           = Inr (take (nat (int (length dst) - (int (length src) - t))) dst @ drop (nat t) src)"
  using assms by (simp add: memcpy_words_def nat_diff_distrib)

lemma HandleStackOverflow_install_ok:
  fixes q :: "('w::len word, 's) Process" and vm :: "('w word, 's) VM"
  assumes c: "coroutine q = Some c" "objects (heap q) c = Some (CoroutineObject (HeapObject oa))"
    "objects (heap q) oa = Some (StackObject old)"
    and a: "objects (heap q) a = Some (StackObject st)" "a \<noteq> oa"
    and sizes: "0 \<le> stack_top old" "stack_top old \<le> Stack_length old"
      "Stack_length old - stack_top old \<le> Stack_length st"
  defines "h \<equiv> Stack_length old - stack_top old"
  defines "copied \<equiv> take (nat (Stack_length st - h)) (words st) @ drop (nat (stack_top old)) (words old)"
  defines "ns0 \<equiv> st\<lparr>stack_top := Stack_length st - h, words := copied\<rparr>"
  defines "ns \<equiv> ns0\<lparr>words := rewrite_words (UpdateFramePointers vm (space (heap q)) a ns0 oa old) copied\<rparr>"
  shows "\<exists>q1. HandleStackOverflow_install vm q (HeapObject a) = Inr (kStackCheckContinue, q1) \<and>
           stack q1 = Inr (a, ns) \<and> store_buffer q1 = store_buffer q @ [a] \<and>
           events q1 = events q \<and> space (heap q1) = space (heap q) \<and>
           stack_limit q1 = (if stack_limit q \<le> kMaxStackMarker then real_limit vm q1 else stack_limit q)"
proof -
  have ac: "a \<noteq> c" using c(2) a(1) by auto
  have oc: "oa \<noteq> c" using c(2,3) by auto
  have st: "stack q = Inr (oa, old)" by (rule stack_InrI [OF c])
  have cp: "memcpy_words (words st) (Stack_length st - (Stack_length old - stack_top old))
              (words old) (stack_top old) (Stack_length old - stack_top old) = Inr copied"
    using memcpy_words_suffix [of "stack_top old" "words old" "words st"] sizes
    by (simp add: h_def copied_def Stack_length_def)
  have h0: "\<not> Stack_length old - stack_top old < 0" using sizes by simp
  show ?thesis
    using c a ac oc sizes(2)
    by (simp add: HandleStackOverflow_install_def Stack_cast_def st Let_def cp h0
        has_stack_def Coroutine_stack_def set_stack_def stack_def
        UpdateStackLimit_eq StoreBuffer_Insert_def ns_def ns0_def h_def real_limit_def)
qed


text \<open>
  Up to \<open>2 ^ 30\<close>, \<^verbatim>\<open>RoundUpToPowerOfTwo\<close> gives the least power of two that is at least
  its argument. Above, the power of two is \<open>2 ^ 31\<close>, which the \<^verbatim>\<open>int\<close> holds as a
  negative number.
\<close>

lemma as_int_id: "- (2 ^ 31) \<le> x \<Longrightarrow> x < 2 ^ 31 \<Longrightarrow> as_int x = x"
  unfolding as_int_def sint_sbintrunc'
  by (rule signed_take_bit_int_eq_self) simp_all

lemma as_int_new_size:
  assumes "n = Stack_length old + max 256 (RoundUpToPowerOfTwo addition)" and "n < 2 ^ 31"
  shows "as_int (Stack_length old + max 256 (RoundUpToPowerOfTwo addition)) = n"
proof -
  have "0 \<le> n" using assms(1) by (simp add: Stack_length_def)
  then show ?thesis using assms by (simp add: as_int_id)
qed

lemma next_power_of_two_from_least:
  assumes "p = 2 ^ i" "i = 0 \<or> 2 ^ (i - 1) < n"
  shows "\<exists>e. next_power_of_two_from p n = 2 ^ e \<and> n \<le> 2 ^ e \<and> (e = 0 \<or> 2 ^ (e - 1) < n)"
  using assms
proof (induction p n arbitrary: i rule: next_power_of_two_from.induct)
  case (1 p n)
  have pos: "0 < p" using "1.prems"(1) by simp
  show ?case
  proof (cases "n \<le> p")
    case True
    then show ?thesis
      using "1.prems" by (subst next_power_of_two_from.simps) auto
  next
    case False
    have "\<exists>e. next_power_of_two_from (2 * p) n = 2 ^ e \<and> n \<le> 2 ^ e \<and> (e = 0 \<or> 2 ^ (e - 1) < n)"
    proof (rule "1.IH" [of "Suc i"])
      show "\<not> (p \<le> 0 \<or> n \<le> p)" using pos False by simp
      show "2 * p = 2 ^ Suc i" using "1.prems"(1) by simp
      show "Suc i = 0 \<or> 2 ^ (Suc i - 1) < n" using False "1.prems"(1) by simp
    qed
    then show ?thesis
      using pos False by (subst next_power_of_two_from.simps) simp
  qed
qed


lemma RoundUpToPowerOfTwo_wraps:
  assumes "2 ^ 30 < n" and "n < 2 ^ 31"
  shows "RoundUpToPowerOfTwo n = - (2 ^ 31)"
proof -
  have word: "uint (word_of_int n :: 32 word) = n"
    using assms by (simp add: uint_word_of_int)
  have "\<exists>e. next_power_of_two_from 1 n = 2 ^ e \<and> n \<le> 2 ^ e \<and> (e = 0 \<or> 2 ^ (e - 1) < n)"
    by (rule next_power_of_two_from_least [of 1 0]) simp_all
  then obtain e where e: "next_power_of_two_from 1 n = 2 ^ e" "n \<le> 2 ^ e" "e = 0 \<or> 2 ^ (e - 1) < n"
    by blast
  from e(2) assms(1) have "(2::int) ^ 30 < 2 ^ e" by simp
  then have low: "30 < e" by (simp only: power_strict_increasing_iff [of 2])
  with e(3) assms(2) have "(2::int) ^ (e - 1) < 2 ^ 31" by simp
  then have "e - 1 < 31" by (simp only: power_strict_increasing_iff [of 2])
  with low have "e = 31" by simp
  moreover have "as_int (2 ^ 31) = - (2 ^ 31)"
    by (simp add: as_int_def)
  ultimately show ?thesis
    unfolding RoundUpToPowerOfTwo_def word e(1) by (simp only:)
qed

lemma HandleStackOverflow_no_marker:
  "\<not> marker_pending (stack_limit p) \<Longrightarrow>
     HandleStackOverflow vm p addition = HandleStackOverflow_grow vm p addition"
  by (auto simp add: HandleStackOverflow_def marker_pending_def Let_def)


text \<open>
  The new stack after a growth to \<open>n\<close> words: the live part of the old stack is at its
  top, apart from what \<^verbatim>\<open>UpdateFramePointers\<close> has rewritten.
\<close>

lemma install_after_allocation:
  fixes q :: "('w::len word, 's) Process" and vm :: "('w word, 's) VM"
    and s1 :: 's and evs :: "event list" and sb :: "addr list"
  assumes st: "stack q = Inr (oa, old)"
    and sizes: "0 \<le> stack_top old" "stack_top old \<le> Stack_length old"
    and n: "Stack_length old \<le> n"
    and fresh: "objects (heap q) a = None"
    and len: "Stack_length new = n"
  defines "q0 \<equiv> q\<lparr>heap := (heap q)\<lparr>objects := (objects (heap q))(a \<mapsto> StackObject new), space := s1\<rparr>,
                    events := evs, store_buffer := sb @ [a]\<rparr>"
  shows "\<exists>q1 ns copied.
           HandleStackOverflow_install vm q0 (HeapObject a) = Inr (kStackCheckContinue, q1) \<and>
           stack q1 = Inr (a, ns) \<and> a \<in> set (store_buffer q1) \<and> events q1 = evs \<and>
           stack_limit q1 = (if stack_limit q \<le> kMaxStackMarker then real_limit vm q1 else stack_limit q) \<and>
           Stack_length ns = n \<and>
           stack_top ns = n - (Stack_length old - stack_top old) \<and>
           length copied = nat n \<and>
           drop (nat (stack_top ns)) copied = drop (nat (stack_top old)) (words old) \<and>
           words ns = rewrite_words
                        (UpdateFramePointers vm (space (heap q1)) a (ns\<lparr>words := copied\<rparr>) oa old) copied \<and>
           (\<forall>j < nat (Stack_length old - stack_top old).
              nat (stack_top ns) + j
                \<notin> fst ` set (UpdateFramePointers vm (space (heap q1)) a (ns\<lparr>words := copied\<rparr>) oa old) \<longrightarrow>
              words ns ! (nat (stack_top ns) + j) = words old ! (nat (stack_top old) + j))"
proof -
  obtain c where c: "coroutine q = Some c"
    "objects (heap q) c = Some (CoroutineObject (HeapObject oa))"
    "objects (heap q) oa = Some (StackObject old)"
    using stack_InrD [OF st] by blast
  have ne: "a \<noteq> c" "a \<noteq> oa" using c fresh by auto
  have c0: "coroutine q0 = Some c"
    "objects (heap q0) c = Some (CoroutineObject (HeapObject oa))"
    "objects (heap q0) oa = Some (StackObject old)"
    "objects (heap q0) a = Some (StackObject new)"
    using c ne by (simp_all add: q0_def)
  have sz: "Stack_length old - stack_top old \<le> Stack_length new"
    using sizes n len by simp
  from HandleStackOverflow_install_ok [OF c0(1-3) c0(4) ne(2) sizes sz, of vm]
  obtain q1 where q1: "HandleStackOverflow_install vm q0 (HeapObject a) = Inr (kStackCheckContinue, q1)"
    "stack q1 = Inr (a, new\<lparr>stack_top := Stack_length new - (Stack_length old - stack_top old),
        words := rewrite_words (UpdateFramePointers vm (space (heap q0)) a
           (new\<lparr>stack_top := Stack_length new - (Stack_length old - stack_top old),
              words := take (nat (Stack_length new - (Stack_length old - stack_top old))) (words new) @
                drop (nat (stack_top old)) (words old)\<rparr>) oa old)
          (take (nat (Stack_length new - (Stack_length old - stack_top old))) (words new) @
                drop (nat (stack_top old)) (words old))\<rparr>)"
    "store_buffer q1 = store_buffer q0 @ [a]" "events q1 = events q0"
    "space (heap q1) = space (heap q0)"
    "stack_limit q1 = (if stack_limit q0 \<le> kMaxStackMarker then real_limit vm q1 else stack_limit q0)"
    by auto
  let ?h = "Stack_length old - stack_top old"
  let ?copied = "take (nat (n - ?h)) (words new) @ drop (nat (stack_top old)) (words old)"
  let ?ns0 = "new\<lparr>stack_top := n - ?h, words := ?copied\<rparr>"
  let ?ns = "?ns0\<lparr>words := rewrite_words (UpdateFramePointers vm (space (heap q1)) a ?ns0 oa old) ?copied\<rparr>"
  have sp: "space (heap q1) = space (heap q0)" by (rule q1(5))
  have f1: "HandleStackOverflow_install vm q0 (HeapObject a) = Inr (kStackCheckContinue, q1)"
    by (rule q1(1))
  have f2: "stack q1 = Inr (a, ?ns)"
    using q1(2) len sp by simp
  have f3: "a \<in> set (store_buffer q1)"
    using q1(3) by simp
  have f4: "events q1 = evs"
    using q1(4) by (simp add: q0_def)
  have f5: "stack_limit q1 = (if stack_limit q \<le> kMaxStackMarker then real_limit vm q1 else stack_limit q)"
    using q1(6) by (simp add: q0_def)
  have f6: "Stack_length ?ns = n"
    using sizes n len by (simp add: Stack_length_def)
  have f7: "stack_top ?ns = n - ?h"
    by simp
  have f8: "length ?copied = nat n"
    using sizes n len by (simp add: Stack_length_def)
  have f9: "drop (nat (stack_top ?ns)) ?copied = drop (nat (stack_top old)) (words old)"
    using sizes n len by (simp add: Stack_length_def)
  have f10: "words ?ns = rewrite_words
      (UpdateFramePointers vm (space (heap q1)) a (?ns\<lparr>words := ?copied\<rparr>) oa old) ?copied"
    by simp
  have f11: "\<forall>j < nat (Stack_length old - stack_top old).
              nat (stack_top ?ns) + j
                \<notin> fst ` set (UpdateFramePointers vm (space (heap q1)) a (?ns\<lparr>words := ?copied\<rparr>) oa old) \<longrightarrow>
              words ?ns ! (nat (stack_top ?ns) + j) = words old ! (nat (stack_top old) + j)"
  proof (intro allI impI)
    fix j
    assume j: "j < nat (Stack_length old - stack_top old)"
      and un: "nat (stack_top ?ns) + j
                \<notin> fst ` set (UpdateFramePointers vm (space (heap q1)) a (?ns\<lparr>words := ?copied\<rparr>) oa old)"
    have "words ?ns ! (nat (stack_top ?ns) + j) = ?copied ! (nat (stack_top ?ns) + j)"
      using rewrite_words_untouched [OF un] by simp
    also have "\<dots> = drop (nat (stack_top ?ns)) ?copied ! j"
      using f8 sizes n by (subst nth_drop) simp_all
    also have "\<dots> = drop (nat (stack_top old)) (words old) ! j"
      by (simp only: f9)
    also have "\<dots> = words old ! (nat (stack_top old) + j)"
      using sizes by (subst nth_drop) (simp_all add: Stack_length_def)
    finally show "words ?ns ! (nat (stack_top ?ns) + j) = words old ! (nat (stack_top old) + j)" .
  qed
  from f1 f2 f3 f4 f5 f6 f7 f8 f9 f10 f11 show ?thesis
    by blast
qed


lemma stack_answer_objects:
  "objects h = objects h' \<Longrightarrow> stack_answer h n r = stack_answer h' n r"
  by (simp add: stack_answer_def split: allocation.splits)

lemma stack_objects_cong:
  "coroutine q = coroutine p \<Longrightarrow> objects (heap q) = objects (heap p) \<Longrightarrow> stack q = stack p"
  by (simp add: stack_def Coroutine_stack_def Stack_cast_def
      split: option.splits heap_object.splits object.splits)

lemma CollectMutableGarbage_ok:
  fixes p :: "('w::len word, 's) Process"
  assumes "stack p = Inr s"
  shows "\<exists>p2. CollectMutableGarbage vm p = Inr p2 \<and> coroutine p2 = coroutine p \<and>
           objects (heap p2) = objects (heap p) \<and> program p2 = program p \<and>
           events p2 = events p @ [MutableCollection]"
proof -
  obtain to sb where sc: "Scavenge vm (space (heap p)) (store_buffer p) = (to, sb)"
    by (cases "Scavenge vm (space (heap p)) (store_buffer p)")
  let ?c = "p\<lparr>heap := (heap p)\<lparr>space := to\<rparr>, store_buffer := sb,
               events := events p @ [MutableCollection]\<rparr>"
  have "stack ?c = Inr s"
    using stack_objects_cong [of ?c p] assms by simp
  then show ?thesis
    by (simp add: CollectMutableGarbage_def sc UpdateStackLimit_eq)
qed

text \<open>One attempt: the allocation, and the installation of the stack if there is one.\<close>

lemma attempt_growth:
  fixes q :: "('w::len word, 's) Process" and vm :: "('w word, 's) VM"
  assumes st: "stack q = Inr (oa, old)"
    and sizes: "0 \<le> stack_top old" "stack_top old \<le> Stack_length old"
    and n: "Stack_length old \<le> n"
    and answer: "stack_answer (heap q) n
                   (fst (CreateStack vm (space (heap q)) (stack_class (program q)) n))"
  shows "\<exists>ob q1. NewStack vm q n = Inr (ob, q1) \<and>
           events q1 = events q @ [Allocation kNewStack ob] \<and>
           (if ob = Failure retry_after_gc
            then coroutine q1 = coroutine q \<and> objects (heap q1) = objects (heap q) \<and>
                 program q1 = program q \<and> stack_limit q1 = stack_limit q \<and>
                 store_buffer q1 = store_buffer q
            else \<exists>q2. HandleStackOverflow_install vm q1 ob = Inr (kStackCheckContinue, q2) \<and>
                   events q2 = events q1 \<and> grown vm oa old n q2 \<and>
                   stack_limit q2 = (if stack_limit q \<le> kMaxStackMarker then real_limit vm q2
                                     else stack_limit q))"
proof -
  obtain r s1 where r: "CreateStack vm (space (heap q)) (stack_class (program q)) n = (r, s1)"
    by (cases "CreateStack vm (space (heap q)) (stack_class (program q)) n")
  show ?thesis
  proof (cases r)
    case (AllocationFailure f)
    then have "f = retry_after_gc"
      using answer r by (simp add: stack_answer_def)
    then show ?thesis
      using NewStack_refused [of vm q n f s1] r AllocationFailure by simp
  next
    case (Allocated a ob)
    then obtain new where new: "ob = StackObject new" "Stack_length new = n"
      and fresh: "objects (heap q) a = None"
      using answer r by (auto simp add: stack_answer_def split: heap_object.splits)
    let ?q0 = "q\<lparr>heap := (heap q)\<lparr>objects := (objects (heap q))(a \<mapsto> StackObject new), space := s1\<rparr>,
              events := events q @ [Allocation kNewStack (HeapObject a)],
              store_buffer := store_buffer q @ [a]\<rparr>"
    have alloc: "NewStack vm q n = Inr (HeapObject a, ?q0)"
      using NewStack_allocated [of vm q n a ob s1] r Allocated new
      by (simp add: StoreBuffer_Insert_def)
    from install_after_allocation [OF st sizes n fresh new(2), where vm = vm and ?s1.0 = s1
        and evs = "events q @ [Allocation kNewStack (HeapObject a)]" and sb = "store_buffer q"]
    obtain q1 where inst: "HandleStackOverflow_install vm ?q0 (HeapObject a) = Inr (kStackCheckContinue, q1)"
      and ev: "events q1 = events q @ [Allocation kNewStack (HeapObject a)]"
      and lim: "stack_limit q1 = (if stack_limit q \<le> kMaxStackMarker then real_limit vm q1 else stack_limit q)"
      and g: "grown vm oa old n q1"
      by blast
    have "events ?q0 = events q @ [Allocation kNewStack (HeapObject a)]"
      by simp
    with inst ev lim g show ?thesis
      unfolding alloc by (intro exI [of _ "HeapObject a"] exI [of _ ?q0]) auto
  qed
qed

lemma HandleStackOverflow_grow_cases:
  fixes p :: "('w::len word, 's) Process" and vm :: "('w word, 's) VM"
  assumes st: "stack p = Inr (oa, old)"
    and sizes: "0 \<le> stack_top old" "stack_top old \<le> Stack_length old"
    and n: "n = Stack_length old + max 256 (RoundUpToPowerOfTwo addition)"
    and fits: "n \<le> sint (MaxStackSizeInWords vm)"
    and answers: "\<And>s. stack_answer (heap p) n (fst (CreateStack vm s (stack_class (program p)) n))"
  shows "\<exists>r p1 ob. HandleStackOverflow_grow vm p addition = Inr (r, p1) \<and>
           (events p1 = events p @ [Allocation kNewStack ob] \<and> ob \<noteq> Failure retry_after_gc \<or>
            events p1 = events p @ [Allocation kNewStack (Failure retry_after_gc), MutableCollection,
                                    Allocation kNewStack ob]) \<and>
           (if ob = Failure retry_after_gc
            then r = kStackCheckOverflow \<and> stack p1 = stack p
            else r = kStackCheckContinue \<and> grown vm oa old n p1)"
proof -
  have Ln: "Stack_length old \<le> n" using n by simp
  have "sint (MaxStackSizeInWords vm) < 2 ^ 31"
    using sint_lt [of "MaxStackSizeInWords vm"] by simp
  with fits have "n < 2 ^ 31" by simp
  note size = as_int_new_size [OF n this]
  have unfold: "HandleStackOverflow_grow vm p addition =
     (case NewStack vm p n of
        Inl e \<Rightarrow> Inl e
      | Inr (new_stack_object, p1) \<Rightarrow>
          if new_stack_object = Failure retry_after_gc
          then (case CollectMutableGarbage vm p1 of
                  Inl e \<Rightarrow> Inl e
                | Inr p2 \<Rightarrow>
                    (case NewStack vm p2 n of
                       Inl e \<Rightarrow> Inl e
                     | Inr (new_stack_object, p3) \<Rightarrow>
                         if new_stack_object = Failure retry_after_gc
                         then Inr (kStackCheckOverflow, p3)
                         else HandleStackOverflow_install vm p3 new_stack_object))
          else HandleStackOverflow_install vm p1 new_stack_object)"
    using st fits
    apply (simp add: HandleStackOverflow_grow_def Let_def)
    unfolding size
    apply simp
    done
  define G where "G = (\<lambda>q. grown vm oa old n q)"
  have attempt: "\<exists>ob q1. NewStack vm q n = Inr (ob, q1) \<and>
           events q1 = events q @ [Allocation kNewStack ob] \<and>
           (if ob = Failure retry_after_gc
            then coroutine q1 = coroutine q \<and> objects (heap q1) = objects (heap q) \<and>
                 program q1 = program q \<and> stack_limit q1 = stack_limit q \<and>
                 store_buffer q1 = store_buffer q
            else \<exists>q2. HandleStackOverflow_install vm q1 ob = Inr (kStackCheckContinue, q2) \<and>
                   events q2 = events q1 \<and> G q2 \<and>
                   stack_limit q2 = (if stack_limit q \<le> kMaxStackMarker then real_limit vm q2
                                     else stack_limit q))"
    if "stack q = Inr (oa, old)"
      "stack_answer (heap q) n (fst (CreateStack vm (space (heap q)) (stack_class (program q)) n))"
    for q :: "('w word, 's) Process"
    unfolding G_def by (rule attempt_growth [OF that(1) sizes Ln that(2)])
  from attempt [OF st answers]
  obtain ob1 p1 where first: "NewStack vm p n = Inr (ob1, p1)"
    "events p1 = events p @ [Allocation kNewStack ob1]"
    and rest1: "if ob1 = Failure retry_after_gc
            then coroutine p1 = coroutine p \<and> objects (heap p1) = objects (heap p) \<and>
                 program p1 = program p \<and> stack_limit p1 = stack_limit p \<and>
                 store_buffer p1 = store_buffer p
            else \<exists>q2. HandleStackOverflow_install vm p1 ob1 = Inr (kStackCheckContinue, q2) \<and>
                   events q2 = events p1 \<and> G q2 \<and>
                   stack_limit q2 = (if stack_limit p \<le> kMaxStackMarker then real_limit vm q2
                                     else stack_limit p)"
    by blast
  show ?thesis
  proof (cases "ob1 = Failure retry_after_gc")
    case False
    with rest1 obtain q2 where
      "HandleStackOverflow_install vm p1 ob1 = Inr (kStackCheckContinue, q2)"
      "events q2 = events p1" "G q2"
      by auto
    then show ?thesis
      using False first unfolding unfold G_def
      by (intro exI [of _ kStackCheckContinue] exI [of _ q2] exI [of _ ob1]) simp
  next
    case True
    with rest1 have same1: "coroutine p1 = coroutine p" "objects (heap p1) = objects (heap p)"
      "program p1 = program p" "stack_limit p1 = stack_limit p" "store_buffer p1 = store_buffer p"
      by simp_all
    have st1: "stack p1 = Inr (oa, old)"
      using stack_objects_cong [of p1 p] same1 st by simp
    from CollectMutableGarbage_ok [OF st1, of vm]
    obtain p2 where gc: "CollectMutableGarbage vm p1 = Inr p2"
      and p2': "coroutine p2 = coroutine p1" "objects (heap p2) = objects (heap p1)"
        "program p2 = program p1" "events p2 = events p1 @ [MutableCollection]"
      by blast
    have p2: "coroutine p2 = coroutine p" "objects (heap p2) = objects (heap p)"
        "program p2 = program p" "events p2 = events p1 @ [MutableCollection]"
      using p2' same1 by simp_all
    have st2: "stack p2 = Inr (oa, old)"
      using stack_objects_cong [of p2 p] p2 st by simp
    have answer2: "stack_answer (heap p2) n
                   (fst (CreateStack vm (space (heap p2)) (stack_class (program p2)) n))"
      using answers [of "space (heap p2)"] stack_answer_objects [OF p2(2)] p2(3) by simp
    from attempt [OF st2 answer2]
    obtain ob2 p3 where second: "NewStack vm p2 n = Inr (ob2, p3)"
      "events p3 = events p2 @ [Allocation kNewStack ob2]"
      and rest2: "if ob2 = Failure retry_after_gc
            then coroutine p3 = coroutine p2 \<and> objects (heap p3) = objects (heap p2) \<and>
                 program p3 = program p2 \<and> stack_limit p3 = stack_limit p2 \<and>
                 store_buffer p3 = store_buffer p2
            else \<exists>q2. HandleStackOverflow_install vm p3 ob2 = Inr (kStackCheckContinue, q2) \<and>
                   events q2 = events p3 \<and> G q2 \<and>
                   stack_limit q2 = (if stack_limit p2 \<le> kMaxStackMarker then real_limit vm q2
                                     else stack_limit p2)"
      by blast
    show ?thesis
    proof (cases "ob2 = Failure retry_after_gc")
      case False
      with rest2 obtain q2 where
        "HandleStackOverflow_install vm p3 ob2 = Inr (kStackCheckContinue, q2)"
        "events q2 = events p3" "G q2"
        by auto
      then show ?thesis
        using False True first second gc p2(4) unfolding unfold G_def
        by (intro exI [of _ kStackCheckContinue] exI [of _ q2] exI [of _ ob2]) simp
    next
      case refused: True
      with rest2 have "coroutine p3 = coroutine p2" "objects (heap p3) = objects (heap p2)"
        by simp_all
      then have "stack p3 = stack p"
        using stack_objects_cong [of p3 p2] st2 st by simp
      then show ?thesis
        using refused True first second gc p2(4) unfolding unfold
        by (intro exI [of _ kStackCheckOverflow] exI [of _ p3] exI [of _ ob2]) simp
    qed
  qed
qed

subsection \<open>Growth of the stack\<close>

text \<open>
  C7. No marker is pending and the new size is within the platform's maximum; the
  allocator answers with a stack of the size asked for or with \<^verbatim>\<open>retry_after_gc\<close>. Then
  \<^verbatim>\<open>HandleStackOverflow\<close> returns, and what it has done is one of two things. Either one
  allocation, which succeeded. Or an allocation that was refused, then one
  \<^verbatim>\<open>CollectMutableGarbage\<close>, then one more allocation and no other. It returns
  \<^verbatim>\<open>Overflow\<close> when the last allocation was refused, and \<^verbatim>\<open>Continue\<close> otherwise.
\<close>
theorem HandleStackOverflow_retries_once:
  fixes p :: "('w::len word, 's) Process" and vm :: "('w word, 's) VM"
  assumes "\<not> marker_pending (stack_limit p)"
    and "stack p = Inr (oa, old)"
    and "0 \<le> stack_top old" and "stack_top old \<le> Stack_length old"
    and "n = Stack_length old + max 256 (RoundUpToPowerOfTwo addition)"
    and "n \<le> sint (MaxStackSizeInWords vm)"
    and "\<And>s. stack_answer (heap p) n (fst (CreateStack vm s (stack_class (program p)) n))"
  shows "\<exists>r p1 ob. HandleStackOverflow vm p addition = Inr (r, p1) \<and>
           (events p1 = events p @ [Allocation kNewStack ob] \<and> ob \<noteq> Failure retry_after_gc \<or>
            events p1 = events p @ [Allocation kNewStack (Failure retry_after_gc), MutableCollection,
                                    Allocation kNewStack ob]) \<and>
           r = (if ob = Failure retry_after_gc then kStackCheckOverflow else kStackCheckContinue)"
proof -
  from HandleStackOverflow_grow_cases [OF assms(2-7)]
  obtain r p1 ob where "HandleStackOverflow_grow vm p addition = Inr (r, p1)"
    "events p1 = events p @ [Allocation kNewStack ob] \<and> ob \<noteq> Failure retry_after_gc \<or>
     events p1 = events p @ [Allocation kNewStack (Failure retry_after_gc), MutableCollection,
                             Allocation kNewStack ob]"
    "r = (if ob = Failure retry_after_gc then kStackCheckOverflow else kStackCheckContinue)"
    by (auto split: if_splits)
  then show ?thesis
    unfolding HandleStackOverflow_no_marker [OF assms(1)] by blast
qed

lemma example_answers:
  "0 \<le> n \<Longrightarrow> stack_answer (heap example_process) n
     (fst (CreateStack (example_vm r1 r2 rs) s (stack_class (program example_process)) n))"
  by (cases s) (simp add: stack_answer_def example_vm_def example_allocate_def example_process_def
      example_heap_def Stack_length_def)

lemma example_no_marker: "\<not> marker_pending (stack_limit example_process)"
  by (simp add: marker_pending_def example_process_def marker_defs)

lemma RoundUpToPowerOfTwo_4: "RoundUpToPowerOfTwo 4 = 4"
  by (simp add: RoundUpToPowerOfTwo_def as_int_def)

lemma as_int_260: "as_int 260 = 260"
  by (simp add: as_int_def)

lemmas growth_defs =
  HandleStackOverflow_def HandleStackOverflow_grow_def HandleStackOverflow_install_def
  NewStack_def Heap_allocate_def IsFailure_def HeapObject_cast_def StoreBuffer_Insert_def
  CollectMutableGarbage_def UpdateStackLimit_eq Stack_cast_def Coroutine_stack_def
  has_stack_def set_stack_def stack_def memcpy_words_def rewrite_words_def Stack_length_def
  real_limit_def live_words_def marker_defs RoundUpToPowerOfTwo_4 as_int_260 Let_def

text \<open>
  The allocator of the example refuses until a collection has run: the second attempt
  succeeds. When it refuses again after the collection, the result is \<^verbatim>\<open>Overflow\<close>.
\<close>

theorem HandleStackOverflow_retries_once_witness:
  "(\<exists>r p1 ob. HandleStackOverflow (example_vm True False []) example_process 4 = Inr (r, p1) \<and>
      (events p1 = events example_process @ [Allocation kNewStack ob] \<and> ob \<noteq> Failure retry_after_gc \<or>
       events p1 = events example_process @
          [Allocation kNewStack (Failure retry_after_gc), MutableCollection, Allocation kNewStack ob]) \<and>
      r = (if ob = Failure retry_after_gc then kStackCheckOverflow else kStackCheckContinue)) \<and>
   map_sum id (\<lambda>(r, p1). (r, events p1))
     (HandleStackOverflow (example_vm True False []) example_process 4)
     = Inr (kStackCheckContinue,
            [Allocation kNewStack (Failure retry_after_gc), MutableCollection,
             Allocation kNewStack (HeapObject 11)]) \<and>
   map_sum id (\<lambda>(r, p1). (r, events p1))
     (HandleStackOverflow (example_vm True True []) example_process 4)
     = Inr (kStackCheckOverflow,
            [Allocation kNewStack (Failure retry_after_gc), MutableCollection,
             Allocation kNewStack (Failure retry_after_gc)])"
proof -
  have st: "stack example_process = Inr (2, example_stack)"
    by (rule stack_example_process)
  have n: "260 = Stack_length example_stack + max 256 (RoundUpToPowerOfTwo 4)"
    by (simp add: RoundUpToPowerOfTwo_4 Stack_length_def example_stack_def)
  have top: "0 \<le> stack_top example_stack" "stack_top example_stack \<le> Stack_length example_stack"
    by (simp_all add: example_stack_def Stack_length_def)
  have fits: "260 \<le> sint (MaxStackSizeInWords (example_vm True False []))"
    by (simp add: example_vm_def)
  have ans: "stack_answer (heap example_process) 260
     (fst (CreateStack (example_vm True False []) s (stack_class (program example_process)) 260))" for s
    by (rule example_answers) simp
  have a: "map_sum id (\<lambda>(r, p1). (r, events p1))
     (HandleStackOverflow (example_vm True True []) example_process 4)
     = Inr (kStackCheckOverflow,
            [Allocation kNewStack (Failure retry_after_gc), MutableCollection,
             Allocation kNewStack (Failure retry_after_gc)])"
    by (simp add: growth_defs example_defs)
  have b: "map_sum id (\<lambda>(r, p1). (r, events p1))
     (HandleStackOverflow (example_vm True False []) example_process 4)
     = Inr (kStackCheckContinue,
            [Allocation kNewStack (Failure retry_after_gc), MutableCollection,
             Allocation kNewStack (HeapObject 11)])"
    by (simp add: growth_defs example_defs)
  from HandleStackOverflow_retries_once [OF example_no_marker st top n fits ans] a b
  show ?thesis by blast
qed




text \<open>
  Above \<open>2 ^ 30\<close> the size increase is not the next power of two. For
  \<open>k = 2 ^ 30 + 1\<close> the rounding gives \<open>2 ^ 31\<close>, which \<^verbatim>\<open>size_increase\<close> holds as
  \<open>- 2 ^ 31\<close>; the maximum with 256 is 256, and the stack of 4 words grows to 260 words.
\<close>

lemma HandleStackOverflow_beyond_int:
  "RoundUpToPowerOfTwo (2 ^ 30 + 1) = - (2 ^ 31) \<and>
   map_sum id (\<lambda>(r, p1). (r, map_sum id (\<lambda>(a, s). (a, length (words s))) (stack p1)))
     (HandleStackOverflow (example_vm False False []) example_process (2 ^ 30 + 1))
     = Inr (kStackCheckContinue, Inr (10, 260))"
proof -
  have r: "RoundUpToPowerOfTwo (2 ^ 30 + 1) = - (2 ^ 31)"
    by (rule RoundUpToPowerOfTwo_wraps) simp_all
  have "map_sum id (\<lambda>(r, p1). (r, map_sum id (\<lambda>(a, s). (a, length (words s))) (stack p1)))
     (HandleStackOverflow (example_vm False False []) example_process (2 ^ 30 + 1))
     = Inr (kStackCheckContinue, Inr (10, 260))"
    unfolding HandleStackOverflow_def HandleStackOverflow_grow_def r
    by (simp add: growth_defs example_defs del: RoundUpToPowerOfTwo_4)
  with r show ?thesis by simp
qed


subsection \<open>The current stack is tracked\<close>













subsection \<open>Signals\<close>

text \<open>
  C9. \<^verbatim>\<open>SendSignal\<close> installs at most one signal. If the slot is null and no other
  thread installs a signal before the exchange of this call succeeds, the argument is
  installed and its reference count is untouched. If a signal is already installed, or
  another thread wins the race, the slot keeps that signal and the reference count of
  the argument is decremented once. Nothing else changes.
\<close>
theorem SendSignal_installs_at_most_one:
  "SendSignal schedule p sig =
     (case (case signal p of Some s \<Rightarrow> Some s | None \<Rightarrow> first_installed schedule) of
        None \<Rightarrow> p\<lparr>signal := Some sig\<rparr>
      | Some winner \<Rightarrow>
          p\<lparr>signal := Some winner,
            signal_refs := (signal_refs p)(sig := signal_refs p sig - 1)\<rparr>)"
proof (induction schedule arbitrary: p)
  case Nil
  show ?case
    by (cases "signal p") (simp_all add: Signal_DecrementRef_def)
next
  case (Cons x schedule)
  show ?case
  proof (cases "signal p")
    case (Some s)
    then show ?thesis by (simp add: Signal_DecrementRef_def)
  next
    case None
    show ?thesis
    proof (cases x)
      case Spurious
      then show ?thesis using None Cons.IH [of p] by simp
    next
      case (InstalledByOther other)
      then show ?thesis
        using None Cons.IH [of "p\<lparr>signal := Some other\<rparr>"] by simp
    qed
  qed
qed

text \<open>An undisturbed call, a lost race after a spurious failure, and a slot already taken.\<close>

theorem SendSignal_witness:
  "SendSignal [] example_process 3 = example_process\<lparr>signal := Some 3\<rparr> \<and>
   SendSignal [Spurious, InstalledByOther 8, Spurious] example_process 3
     = example_process\<lparr>signal := Some 8, signal_refs := (\<lambda>s. 1)(3 := 0)\<rparr> \<and>
   SendSignal [] (example_process\<lparr>signal := Some 8\<rparr>) 3
     = example_process\<lparr>signal := Some 8, signal_refs := (\<lambda>s. 1)(3 := 0)\<rparr>"
  using SendSignal_installs_at_most_one [of "[]" example_process 3]
    SendSignal_installs_at_most_one [of "[Spurious, InstalledByOther 8, Spurious]" example_process 3]
    SendSignal_installs_at_most_one [of "[]" "example_process\<lparr>signal := Some 8\<rparr>" 3]
  by (simp add: example_process_def)

subsection \<open>Lookup\<close>

text \<open>
  C2, as the code has it. \<^verbatim>\<open>LookupEntrySlow\<close> fails only in compact mode, without the
  cache of the thread, or when neither the selector nor the selector of
  \<^verbatim>\<open>noSuchMethodTrampoline\<close> has a method. On a hit in the secondary table it returns the
  cached entry and changes nothing. Otherwise the entry it returns is the one of the class
  and the selector, and its tag is not zero when \<^verbatim>\<open>LookupMethod\<close> finds a target: the tag
  is 1 or the address of the intrinsic. When \<^verbatim>\<open>LookupMethod\<close> finds no target, the target
  is that of the \<^verbatim>\<open>noSuchMethodTrampoline\<close> selector and the tag is 0.
\<close>
theorem LookupEntrySlow_tag:
  fixes p :: "('w::len word, 's) Process"
  shows
  "case LookupEntrySlow d p i cls sel of
     Inl e \<Rightarrow>
       is_compact (program p) \<or> secondary_entry d p cls sel = None \<or>
       (\<not> secondary_hit d p cls sel \<and> LookupMethod d cls sel = None \<and>
        LookupMethod d cls (noSuchMethodTrampoline_selector d) = None)
   | Inr (entry, p1) \<Rightarrow>
       if secondary_hit d p cls sel
       then secondary_entry d p cls sel = Some entry \<and> p1 = p
       else clazz entry = Some cls \<and> selector entry = sel \<and>
            (case LookupMethod d cls sel of
               Some f \<Rightarrow>
                 target entry = Some f \<and> tag entry \<noteq> 0 \<and>
                 tag entry = (if ComputeIntrinsic d f = 0 then 1 else ComputeIntrinsic d f)
             | None \<Rightarrow>
                 target entry = LookupMethod d cls (noSuchMethodTrampoline_selector d) \<and>
                 target entry \<noteq> None \<and> tag entry = 0)"
  by (auto simp add: LookupEntrySlow_def secondary_hit_def secondary_entry_def Let_def
      split: option.splits sum.splits prod.splits if_splits)

text \<open>Class 40 and selector 7: the method with its intrinsic.\<close>

theorem LookupEntrySlow_tag_witness:
  "map_sum id (\<lambda>(e, p1). (target e, tag e)) (LookupEntrySlow example_dispatch example_thread_process 0 40 7)
     = Inr (Some 71, 4096)"
  using LookupEntrySlow_tag [where d = example_dispatch and p = example_thread_process and i = 0
      and cls = 40 and sel = 7]
  by (simp add: LookupEntrySlow_def example_dispatch_def example_thread_process_def example_cache_def
      example_process_def example_program_def DemotePrimary_def Let_def)

text \<open>
  C2 as stated fails in the fallback: class 40 has no method for selector 5, the entry
  returned has the trampoline method as target and the tag 0.
\<close>

theorem LookupEntrySlow_zero_tag:
  "map_sum id (\<lambda>(e, p1). (clazz e, selector e, target e, tag e))
     (LookupEntrySlow example_dispatch example_thread_process 0 40 5)
     = Inr (Some 40, 5, Some 70, 0)"
  by (simp add: LookupEntrySlow_def example_dispatch_def example_thread_process_def example_cache_def
      example_process_def example_program_def DemotePrimary_def Let_def)


subsection \<open>Receiving a message\<close>

lemma NewInstance_log:
  "NewInstance vm p k i = Inr (ob, p1) \<Longrightarrow>
     events p1 = events p @ [Allocation kNewInstance ob] \<and> mailbox p1 = mailbox p"
  by (auto simp add: NewInstance_def Let_def split: prod.splits if_splits option.splits)

lemma NewInteger_log:
  "NewInteger vm p v = Inr (ob, p1) \<Longrightarrow>
     events p1 = events p @ [Allocation kNewInteger ob] \<and> mailbox p1 = mailbox p"
  by (auto simp add: NewInteger_def Let_def split: prod.splits if_splits option.splits)

lemma store_instance_same [simp]:
  "events (store_instance p a k fs) = events p"
  "mailbox (store_instance p a k fs) = mailbox p"
  by (simp_all add: store_instance_def split: option.splits)

lemma SetInstanceField_same:
  "SetInstanceField p ob i v = Inr p1 \<Longrightarrow> events p1 = events p \<and> mailbox p1 = mailbox p"
  by (auto simp add: SetInstanceField_def split: sum.splits prod.splits if_splits)

lemma RegisterFinalizer_same:
  "RegisterFinalizer p a f = Inr p1 \<Longrightarrow> events p1 = events p \<and> mailbox p1 = mailbox p"
  by (auto simp add: RegisterFinalizer_def split: option.splits if_splits)

lemma allocation_refused_one [simp]:
  "allocation_refused (length evs) (evs @ [Allocation f ob]) \<longleftrightarrow> ob = Failure retry_after_gc"
  by (cases f) (auto simp add: allocation_refused_def)

lemma allocation_refused_two [simp]:
  "allocation_refused (length evs) (evs @ [Allocation f ob, Allocation f' ob']) \<longleftrightarrow>
     ob = Failure retry_after_gc \<or> ob' = Failure retry_after_gc"
  by (cases f; cases f') (auto simp add: allocation_refused_def)

lemma allocation_refused_none [simp]: "\<not> allocation_refused (length evs) evs"
  by (simp add: allocation_refused_def)

lemma materialize_foreign_outcome:
  assumes "materialize_foreign vm nv p queue = Inr (out, p1)"
  shows "mailbox p1 = mailbox p \<and>
         (case out of
            Returned r \<Rightarrow> r = Failure retry_after_gc \<and> allocation_refused (length (events p)) (events p1)
          | Materialized r \<Rightarrow> \<not> allocation_refused (length (events p)) (events p1))"
proof -
  from assms obtain ob q where new: "NewInstance vm p (foreign_memory_class (program p)) False = Inr (ob, q)"
    by (auto simp add: materialize_foreign_def Let_def split: if_splits sum.splits)
  note log = NewInstance_log [OF new]
  show ?thesis
  proof (cases "ob = Failure retry_after_gc")
    case True
    then show ?thesis
      using assms new log by (auto simp add: materialize_foreign_def Let_def split: if_splits)
  next
    case False
    then show ?thesis
      using assms new log
      by (auto simp add: materialize_foreign_def Let_def AllocatedForeignMemory_def
          split: if_splits sum.splits prod.splits
          dest!: SetInstanceField_same RegisterFinalizer_same)
  qed
qed


lemma materialize_process_death_outcome:
  assumes "materialize_process_death vm nv p queue = Inr (out, p1)"
  shows "mailbox p1 = mailbox p \<and>
         (case out of
            Returned r \<Rightarrow> r = Failure retry_after_gc \<and> allocation_refused (length (events p)) (events p1)
          | Materialized r \<Rightarrow> \<not> allocation_refused (length (events p)) (events p1))"
proof -
  from assms obtain ob q where new: "NewInstance vm p (process_class (program p)) True = Inr (ob, q)"
    by (auto simp add: materialize_process_death_def Let_def split: if_splits sum.splits)
  note log = NewInstance_log [OF new]
  show ?thesis
  proof (cases "ob = Failure retry_after_gc")
    case True
    then show ?thesis
      using assms new log by (auto simp add: materialize_process_death_def Let_def split: if_splits)
  next
    case False
    with assms new obtain ob2 q2 where
      new2: "NewInstance vm q (process_death_class (program q)) True = Inr (ob2, q2)"
      by (auto simp add: materialize_process_death_def Let_def split: if_splits sum.splits)
    note log2 = NewInstance_log [OF new2]
    show ?thesis
    proof (cases "ob2 = Failure retry_after_gc")
      case True
      then show ?thesis
        using assms new new2 log log2 False
        by (auto simp add: materialize_process_death_def Let_def split: if_splits)
    next
      case ok: False
      then show ?thesis
        using assms new new2 log log2 False
        by (auto simp add: materialize_process_death_def Let_def
            split: if_splits sum.splits prod.splits
            dest!: SetInstanceField_same RegisterFinalizer_same)
    qed
  qed
qed

lemma materialize_outcome:
  assumes "materialize vm nv p queue = Inr (out, p1)"
  shows "mailbox p1 = mailbox p \<and>
         (case out of
            Returned r \<Rightarrow> r = Failure retry_after_gc \<and> allocation_refused (length (events p)) (events p1)
          | Materialized r \<Rightarrow> \<not> allocation_refused (length (events p)) (events p1))"
proof (cases "kind queue")
  case LARGE_INTEGER
  then show ?thesis
    using assms
    by (auto simp add: materialize_def split: sum.splits prod.splits if_splits dest!: NewInteger_log)
next
  case FOREIGN
  then show ?thesis
    using assms materialize_foreign_outcome [of vm nv p queue out p1] by (simp add: materialize_def)
next
  case FOREIGN_FINALIZED
  then show ?thesis
    using assms materialize_foreign_outcome [of vm nv p queue out p1] by (simp add: materialize_def)
next
  case PROCESS_DEATH_SIGNAL
  then show ?thesis
    using assms materialize_process_death_outcome [of vm nv p queue out p1]
    by (simp add: materialize_def)
qed (use assms in \<open>auto simp add: materialize_def\<close>)

text \<open>
  C8. \<^verbatim>\<open>ProcessQueueGetMessage\<close> advances the current message if and only if the payload has
  been materialized. When one of its allocations has answered \<^verbatim>\<open>retry_after_gc\<close>, it
  returns that failure and the mailbox is as before, so the same message is current on
  re-entry; when none has, the mailbox has lost its first message.
\<close>
theorem ProcessQueueGetMessage_advances_iff_materialized:
  "case ProcessQueueGetMessage vm nv p of
     Inl e \<Rightarrow> True
   | Inr (result, p1) \<Rightarrow>
       if allocation_refused (length (events p)) (events p1)
       then result = Failure retry_after_gc \<and> mailbox p1 = mailbox p
       else mailbox p \<noteq> [] \<and> mailbox p1 = tl (mailbox p)"
proof (cases "mailbox p")
  case Nil
  then show ?thesis by (simp add: ProcessQueueGetMessage_def)
next
  case (Cons queue rest)
  show ?thesis
  proof (cases "materialize vm nv p queue")
    case (Inl e)
    then show ?thesis using Cons by (simp add: ProcessQueueGetMessage_def)
  next
    case (Inr x)
    obtain out p1 where x: "x = (out, p1)" by (cases x)
    from materialize_outcome [OF Inr [unfolded x]] show ?thesis
      using Cons Inr x
      by (cases out) (simp_all add: ProcessQueueGetMessage_def AdvanceCurrentMessage_def)
  qed
qed

text \<open>A large integer is first in the mailbox: refused, and then allocated.\<close>

theorem ProcessQueueGetMessage_witness:
  "map_sum id (\<lambda>(r, p1). (r, map kind (mailbox p1), events p1))
     (ProcessQueueGetMessage (example_vm True False []) example_natives example_mail_process)
     = Inr (Failure retry_after_gc, [LARGE_INTEGER, PROCESS_DEATH_SIGNAL],
            [Allocation kNewInteger (Failure retry_after_gc)]) \<and>
   map_sum id (\<lambda>(r, p1). (r, map kind (mailbox p1), events p1))
     (ProcessQueueGetMessage (example_vm False False []) example_natives example_mail_process)
     = Inr (HeapObject 10, [PROCESS_DEATH_SIGNAL], [Allocation kNewInteger (HeapObject 10)])"
  using ProcessQueueGetMessage_advances_iff_materialized
          [where vm = "example_vm True False []" and nv = example_natives and p = example_mail_process]
        ProcessQueueGetMessage_advances_iff_materialized
          [where vm = "example_vm False False []" and nv = example_natives and p = example_mail_process]
  by (simp add: ProcessQueueGetMessage_def materialize_def NewInteger_def Heap_allocate_def
      AdvanceCurrentMessage_def example_mail_process_def example_message_def example_defs Let_def)

subsection \<open>Cooking the stacks\<close>

lemma CookFrames_overflow:
  assumes "index \<le> length deltas" "length deltas < index + length slots" "distinct slots"
    "\<forall>slot \<in> set slots. slot < length ws \<and> (\<exists>bcp. ws ! slot = RawWord bcp)"
  shows "CookFrames code slots ws deltas index = Inl IndexOutOfRange"
  using assms
proof (induction slots arbitrary: ws deltas index)
  case Nil
  then show ?case by simp
next
  case (Cons slot slots)
  from Cons.prems(4) obtain bcp where slot: "slot < length ws" "ws ! slot = RawWord bcp"
    by auto
  show ?case
  proof (cases "length deltas \<le> index")
    case True
    then show ?thesis using slot by (simp add: Let_def)
  next
    case False
    let ?f = "FunctionFromByteCodePointer code bcp"
    have "CookFrames code slots (ws[slot := HeapObject ?f])
            (deltas[index := bcp - bytecode_address_for code ?f 0]) (index + 1) = Inl IndexOutOfRange"
    proof (rule Cons.IH)
      show "index + 1 \<le> length (deltas[index := bcp - bytecode_address_for code ?f 0])"
        using False by simp
      show "length (deltas[index := bcp - bytecode_address_for code ?f 0]) < index + 1 + length slots"
        using Cons.prems(2) by simp
      show "distinct slots" using Cons.prems(3) by simp
      show "\<forall>s \<in> set slots. s < length (ws[slot := HeapObject ?f]) \<and>
              (\<exists>b. ws[slot := HeapObject ?f] ! s = RawWord b)"
        using Cons.prems(3,4) by (auto simp add: nth_list_update)
    qed
    then show ?thesis using slot False by (simp add: Let_def)
  qed
qed

lemma chained_frames_facts:
  "length (chained_frames n) = n" "distinct (chained_frames n)"
  "n \<le> 300 \<Longrightarrow> \<forall>slot \<in> set (chained_frames n). slot < 1024"
  by (auto simp add: chained_frames_def distinct_map inj_on_def)

lemma UncookFrames_update:
  "slot \<notin> set slots \<Longrightarrow>
     UncookFrames code slots (ws[slot := v]) ds index
       = map_sum id (\<lambda>xs. xs[slot := v]) (UncookFrames code slots ws ds index)"
proof (induction slots arbitrary: ws index)
  case Nil
  show ?case by simp
next
  case (Cons s slots)
  then have ne: "s \<noteq> slot" and notin: "slot \<notin> set slots" by auto
  show ?case
    using ne
    by (simp add: Let_def list_update_swap [of slot s] Cons.IH [OF notin] split: object.splits)
qed

lemma restored_words_update:
  "slot \<notin> set slots \<Longrightarrow>
     restored_words code code' slots (ws[slot := v]) = (restored_words code code' slots ws)[slot := v]"
proof (induction slots)
  case Nil
  show ?case by simp
next
  case (Cons s slots)
  then have ne: "s \<noteq> slot" and notin: "slot \<notin> set slots" by auto
  show ?case
    using ne Cons.IH [OF notin] by (simp add: list_update_swap [of s slot])
qed

lemma length_restored_words [simp]: "length (restored_words code code' slots ws) = length ws"
  by (induction slots) simp_all

lemma restored_words_nth:
  "distinct slots \<Longrightarrow> i < length ws \<Longrightarrow>
     restored_words code code' slots ws ! i
       = (if i \<in> set slots then relocate_bcp code code' (ws ! i) else ws ! i)"
proof (induction slots)
  case Nil
  show ?case by simp
next
  case (Cons s slots)
  show ?case
  proof (cases "i = s")
    case True
    with Cons.prems show ?thesis by simp
  next
    case False
    with Cons show ?thesis by simp
  qed
qed

text \<open>
  One stack, cooked and uncooked, when its list of deltas has room for its frames: every
  byte-code pointer slot comes back relocated, and the other words are not touched
  (\<open>restored_words_nth\<close>). The code may have moved in between (\<open>code'\<close>).
\<close>

lemma UncookFrames_CookFrames:
  assumes "distinct slots"
    and "\<forall>slot \<in> set slots. slot < length ws \<and>
           (\<exists>bcp. ws ! slot = RawWord bcp \<and> IsFunction code' (FunctionFromByteCodePointer code bcp))"
    and "index + length slots \<le> length deltas"
  shows "\<exists>ws1 ds1. CookFrames code slots ws deltas index = Inr (ws1, ds1) \<and>
           length ws1 = length ws \<and> length ds1 = length deltas \<and>
           (\<forall>j < index. ds1 ! j = deltas ! j) \<and>
           (\<forall>i. i \<notin> set slots \<longrightarrow> ws1 ! i = ws ! i) \<and>
           UncookFrames code' slots ws1 ds1 index = Inr (restored_words code code' slots ws)"
  using assms
proof (induction slots arbitrary: ws deltas index)
  case Nil
  show ?case by simp
next
  case (Cons slot slots)
  from Cons.prems(2) obtain bcp where slot: "slot < length ws" "ws ! slot = RawWord bcp"
    and fn: "IsFunction code' (FunctionFromByteCodePointer code bcp)"
    by auto
  let ?f = "FunctionFromByteCodePointer code bcp"
  let ?delta = "bcp - bytecode_address_for code ?f 0"
  let ?ws = "ws[slot := HeapObject ?f]"
  let ?ds = "deltas[index := ?delta]"
  have notin: "slot \<notin> set slots" and dist: "distinct slots"
    using Cons.prems(1) by simp_all
  have rest: "\<forall>s \<in> set slots. s < length ?ws \<and>
           (\<exists>b. ?ws ! s = RawWord b \<and> IsFunction code' (FunctionFromByteCodePointer code b))"
    using Cons.prems(2) notin by (auto simp add: nth_list_update)
  have room: "index + 1 + length slots \<le> length ?ds"
    using Cons.prems(3) by simp
  from Cons.IH [OF dist rest room]
  obtain ws1 ds1 where cook: "CookFrames code slots ?ws ?ds (index + 1) = Inr (ws1, ds1)"
    and len: "length ws1 = length ws" "length ds1 = length deltas"
    and pre: "\<forall>j < index + 1. ds1 ! j = ?ds ! j"
    and out: "\<forall>i. i \<notin> set slots \<longrightarrow> ws1 ! i = ?ws ! i"
    and un: "UncookFrames code' slots ws1 ds1 (index + 1) = Inr (restored_words code code' slots ?ws)"
    by auto
  have idx: "index < length deltas" using Cons.prems(3) by simp
  have c1: "CookFrames code (slot # slots) ws deltas index = Inr (ws1, ds1)"
    using slot idx cook by (simp add: Let_def)
  have d: "ds1 ! index = ?delta"
    using pre idx by simp
  have w: "ws1 ! slot = HeapObject ?f"
    using out notin slot by simp
  have self: "ws1[slot := HeapObject ?f] = ws1"
    using w by (metis list_update_id)
  let ?bcp = "bytecode_address_for code' ?f 0 + ?delta"
  have "UncookFrames code' (slot # slots) ws1 ds1 index
          = UncookFrames code' slots (ws1[slot := RawWord ?bcp]) ds1 (index + 1)"
    using slot len w fn d idx by (simp add: Let_def)
  also have "\<dots> = map_sum id (\<lambda>xs. xs[slot := RawWord ?bcp]) (UncookFrames code' slots ws1 ds1 (index + 1))"
    by (rule UncookFrames_update [OF notin])
  also have "\<dots> = Inr ((restored_words code code' slots ?ws)[slot := RawWord ?bcp])"
    using un by simp
  also have "(restored_words code code' slots ?ws)[slot := RawWord ?bcp]
               = restored_words code code' (slot # slots) ws"
    using slot by (simp add: restored_words_update [OF notin] relocate_bcp_def Let_def)
  finally have u1: "UncookFrames code' (slot # slots) ws1 ds1 index
      = Inr (restored_words code code' (slot # slots) ws)" .
  have p1: "\<forall>j < index. ds1 ! j = deltas ! j"
    using pre by simp
  have o1: "\<forall>i. i \<notin> set (slot # slots) \<longrightarrow> ws1 ! i = ws ! i"
    using out by simp
  from c1 len p1 o1 u1 show ?case by blast
qed

text \<open>
  A chain of stacks, cooked and then uncooked, when no stack of the chain has more
  frames than the current stack has words.
\<close>

lemma cooked_chain_Cons:
  "cooked_chain code code' h dss i raw ((a, s) # chain) =
     (raw = HeapObject a \<and> i < length dss \<and>
      (\<exists>ws. objects h a = Some (StackObject (s\<lparr>words := ws\<rparr>)) \<and>
            UncookFrames code' (ByteCodePointerSlots code' a) ws (dss ! i) 0
              = Inr (restored_words code code' (ByteCodePointerSlots code a) (words s))) \<and>
      cooked_chain code code' h dss (Suc i) (stack_next s) chain)"
proof -
  have "(case objects h a of
           Some (StackObject t) \<Rightarrow>
             t = s\<lparr>words := words t\<rparr> \<and>
             UncookFrames code' (ByteCodePointerSlots code' a) (words t) (dss ! i) 0
               = Inr (restored_words code code' (ByteCodePointerSlots code a) (words s))
         | _ \<Rightarrow> False)
        = (\<exists>ws. objects h a = Some (StackObject (s\<lparr>words := ws\<rparr>)) \<and>
            UncookFrames code' (ByteCodePointerSlots code' a) ws (dss ! i) 0
              = Inr (restored_words code code' (ByteCodePointerSlots code a) (words s)))"
    (is "?l = ?r")
  proof
    assume ?l
    then obtain t where "objects h a = Some (StackObject t)" "t = s\<lparr>words := words t\<rparr>"
      "UncookFrames code' (ByteCodePointerSlots code' a) (words t) (dss ! i) 0
         = Inr (restored_words code code' (ByteCodePointerSlots code a) (words s))"
      by (auto split: option.splits heap_object.splits)
    then show ?r by metis
  next
    assume ?r
    then show ?l by auto
  qed
  then show ?thesis by simp
qed

declare cooked_chain.simps(2) [simp del]
declare cooked_chain_Cons [simp]

lemma stack_chain_update:
  "a \<notin> fst ` set chain \<Longrightarrow>
     stack_chain (h\<lparr>objects := (objects h)(a \<mapsto> ob)\<rparr>) raw chain = stack_chain h raw chain"
  by (induction chain arbitrary: raw) auto

lemma cooked_chain_update:
  "a \<notin> fst ` set chain \<Longrightarrow> j < i \<Longrightarrow>
     cooked_chain code code' (h\<lparr>objects := (objects h)(a \<mapsto> ob)\<rparr>) (dss[j := d]) i raw chain
       = cooked_chain code code' h dss i raw chain"
  by (induction chain arbitrary: raw i) auto

lemma Stack_cast_chain:
  "objects h a = Some (StackObject s) \<Longrightarrow> Stack_cast h (HeapObject a) = Inr (a, s)"
  by (simp add: Stack_cast_def)

lemma CookStacks_loop_chain:
  fixes p :: "('u, 's) Process"
  assumes "stack_chain (heap p) raw chain" "distinct (map fst chain)"
    and "\<forall>x \<in> set chain. well_framed code code' (nat L) x"
    and "i + length chain \<le> length (cooked_stack_deltas p)"
    and "stack p = Inr (sa, s0)" "Stack_length s0 = L"
  shows "\<exists>p1. CookStacks_loop code (length chain) i raw p = Inr (Smi 0, p1) \<and>
           cooked_chain code code' (heap p1) (cooked_stack_deltas p1) i raw chain \<and>
           (\<forall>x. x \<notin> fst ` set chain \<longrightarrow> objects (heap p1) x = objects (heap p) x) \<and>
           length (cooked_stack_deltas p1) = length (cooked_stack_deltas p) \<and>
           (\<forall>j < i. cooked_stack_deltas p1 ! j = cooked_stack_deltas p ! j) \<and>
           p1 = p\<lparr>heap := (heap p)\<lparr>objects := objects (heap p1)\<rparr>,
                  cooked_stack_deltas := cooked_stack_deltas p1\<rparr>"
  using assms
proof (induction chain arbitrary: p i raw sa s0)
  case Nil
  then show ?case by simp
next
  case (Cons x chain)
  obtain a s where x: "x = (a, s)" by (cases x)
  let ?slots = "ByteCodePointerSlots code a"
  from Cons.prems(1) x have raw: "raw = HeapObject a"
    and obj: "objects (heap p) a = Some (StackObject s)"
    and rest: "stack_chain (heap p) (stack_next s) chain"
    by simp_all
  from Cons.prems(2) x have notin: "a \<notin> fst ` set chain" and dist: "distinct (map fst chain)"
    by simp_all
  from Cons.prems(3) x have wf: "well_framed code code' (nat L) (a, s)"
    and wfs: "\<forall>x \<in> set chain. well_framed code code' (nat L) x"
    by simp_all
  from wf have slots: "distinct ?slots" "ByteCodePointerSlots code' a = ?slots"
    "length ?slots \<le> nat L"
    by (simp_all add: well_framed_def Let_def)
  have valid: "\<forall>slot \<in> set ?slots. slot < length (words s) \<and>
           (\<exists>bcp. words s ! slot = RawWord bcp \<and> IsFunction code' (FunctionFromByteCodePointer code bcp))"
  proof
    fix slot
    assume "slot \<in> set ?slots"
    with wf have inside: "slot < length (words s)"
      and word: "case words s ! slot of
                   RawWord bcp \<Rightarrow> IsFunction code' (FunctionFromByteCodePointer code bcp)
                 | _ \<Rightarrow> False"
      by (simp_all add: well_framed_def Let_def)
    from word have "\<exists>bcp. words s ! slot = RawWord bcp \<and>
        IsFunction code' (FunctionFromByteCodePointer code bcp)"
      by (cases "words s ! slot") simp_all
    with inside show "slot < length (words s) \<and>
           (\<exists>bcp. words s ! slot = RawWord bcp \<and> IsFunction code' (FunctionFromByteCodePointer code bcp))"
      by simp
  qed
  have room: "0 + length ?slots \<le> length (replicate (nat L) (0::int))"
    using slots(3) by simp
  from UncookFrames_CookFrames [OF slots(1) valid room]
  obtain ws1 ds1 where cook: "CookFrames code ?slots (words s) (replicate (nat L) 0) 0 = Inr (ws1, ds1)"
    and len: "length ws1 = length (words s)"
    and un: "UncookFrames code' ?slots ws1 ds1 0 = Inr (restored_words code code' ?slots (words s))"
    by blast
  let ?p = "p\<lparr>heap := (heap p)\<lparr>objects := (objects (heap p))(a \<mapsto> StackObject (s\<lparr>words := ws1\<rparr>))\<rparr>,
               cooked_stack_deltas := (cooked_stack_deltas p)[i := ds1]\<rparr>"
  have i: "i < length (cooked_stack_deltas p)"
    using Cons.prems(4) by simp
  have step: "CookStacks_loop code (length (x # chain)) i raw p
                = CookStacks_loop code (length chain) (i + 1) (stack_next s) ?p"
    using raw obj Cons.prems(5,6) i cook
    by (simp add: Stack_cast_chain)
  from stack_InrD [OF Cons.prems(5)] obtain c where c: "coroutine p = Some c"
    "objects (heap p) c = Some (CoroutineObject (HeapObject sa))"
    "objects (heap p) sa = Some (StackObject s0)"
    by blast
  have ca: "c \<noteq> a" using c(2) obj by auto
  have cur: "\<exists>s1. stack ?p = Inr (sa, s1) \<and> Stack_length s1 = L"
  proof (cases "sa = a")
    case True
    with c(3) obj have "s0 = s" by simp
    with True Cons.prems(6) len have "stack ?p = Inr (sa, s\<lparr>words := ws1\<rparr>) \<and>
        Stack_length (s\<lparr>words := ws1\<rparr>) = L"
      using c ca by (auto intro!: stack_InrI simp add: Stack_length_def)
    then show ?thesis by blast
  next
    case False
    then have "stack ?p = Inr (sa, s0)"
      using c ca by (auto intro!: stack_InrI)
    with Cons.prems(6) show ?thesis by blast
  qed
  then obtain s1 where cur1: "stack ?p = Inr (sa, s1)" "Stack_length s1 = L" by blast
  have chain': "stack_chain (heap ?p) (stack_next s) chain"
    using rest notin by (simp add: stack_chain_update)
  have room': "i + 1 + length chain \<le> length (cooked_stack_deltas ?p)"
    using Cons.prems(4) by simp
  from Cons.IH [OF chain' dist wfs room' cur1]
  obtain p1 where loop: "CookStacks_loop code (length chain) (i + 1) (stack_next s) ?p = Inr (Smi 0, p1)"
    and cooked: "cooked_chain code code' (heap p1) (cooked_stack_deltas p1) (i + 1) (stack_next s) chain"
    and frame: "\<forall>x. x \<notin> fst ` set chain \<longrightarrow> objects (heap p1) x = objects (heap ?p) x"
    and dlen: "length (cooked_stack_deltas p1) = length (cooked_stack_deltas ?p)"
    and pre: "\<forall>j < i + 1. cooked_stack_deltas p1 ! j = cooked_stack_deltas ?p ! j"
    and same: "p1 = ?p\<lparr>heap := (heap ?p)\<lparr>objects := objects (heap p1)\<rparr>,
                  cooked_stack_deltas := cooked_stack_deltas p1\<rparr>"
    by blast
  have r1: "CookStacks_loop code (length (x # chain)) i raw p = Inr (Smi 0, p1)"
    using step loop by simp
  have oa: "objects (heap p1) a = Some (StackObject (s\<lparr>words := ws1\<rparr>))"
    using frame notin by simp
  have di: "cooked_stack_deltas p1 ! i = ds1"
    using pre i by simp
  have r2: "cooked_chain code code' (heap p1) (cooked_stack_deltas p1) i raw (x # chain)"
    using x raw oa di un slots(2) cooked dlen i by auto
  have r3: "\<forall>y. y \<notin> fst ` set (x # chain) \<longrightarrow> objects (heap p1) y = objects (heap p) y"
    using frame x by simp
  have r4: "length (cooked_stack_deltas p1) = length (cooked_stack_deltas p)"
    using dlen by simp
  have r5: "\<forall>j < i. cooked_stack_deltas p1 ! j = cooked_stack_deltas p ! j"
    using pre by simp
  have r6: "p1 = p\<lparr>heap := (heap p)\<lparr>objects := objects (heap p1)\<rparr>,
                  cooked_stack_deltas := cooked_stack_deltas p1\<rparr>"
    by (subst same) simp
  from r1 r2 r3 r4 r5 r6 show ?case by blast
qed


lemma UncookAndUnchainStacks_loop_chain:
  fixes p :: "('u, 's) Process"
  assumes "cooked_chain code code' (heap p) (cooked_stack_deltas p) i raw chain"
    and "distinct (map fst chain)"
  shows "\<exists>p2. UncookAndUnchainStacks_loop code' (length chain) i raw p = Inr (Smi 0, p2) \<and>
           (\<forall>x \<in> set chain. objects (heap p2) (fst x) = Some (uncooked code code' x)) \<and>
           (\<forall>x. x \<notin> fst ` set chain \<longrightarrow> objects (heap p2) x = objects (heap p) x) \<and>
           p2 = p\<lparr>heap := (heap p)\<lparr>objects := objects (heap p2)\<rparr>,
                  cooked_stack_deltas := cooked_stack_deltas p2\<rparr>"
  using assms
proof (induction chain arbitrary: p i raw)
  case Nil
  then show ?case by simp
next
  case (Cons x chain)
  obtain a s where x: "x = (a, s)" by (cases x)
  let ?restored = "restored_words code code' (ByteCodePointerSlots code a) (words s)"
  from Cons.prems(1) x obtain ws where raw: "raw = HeapObject a"
    and i: "i < length (cooked_stack_deltas p)"
    and obj: "objects (heap p) a = Some (StackObject (s\<lparr>words := ws\<rparr>))"
    and un: "UncookFrames code' (ByteCodePointerSlots code' a) ws (cooked_stack_deltas p ! i) 0
               = Inr ?restored"
    and rest: "cooked_chain code code' (heap p) (cooked_stack_deltas p) (Suc i) (stack_next s) chain"
    by auto
  from Cons.prems(2) x have notin: "a \<notin> fst ` set chain" and dist: "distinct (map fst chain)"
    by simp_all
  let ?p = "p\<lparr>heap := (heap p)\<lparr>objects := (objects (heap p))(a \<mapsto>
                 StackObject (s\<lparr>words := ?restored, stack_next := Smi 0\<rparr>))\<rparr>,
               cooked_stack_deltas := (cooked_stack_deltas p)[i := []]\<rparr>"
  have step: "UncookAndUnchainStacks_loop code' (length (x # chain)) i raw p
                = UncookAndUnchainStacks_loop code' (length chain) (Suc i) (stack_next s) ?p"
    using raw obj i un by (simp add: Stack_cast_chain)
  have rest': "cooked_chain code code' (heap ?p) (cooked_stack_deltas ?p) (Suc i) (stack_next s) chain"
    using rest notin by (simp add: cooked_chain_update)
  from Cons.IH [OF rest' dist]
  obtain p2 where loop: "UncookAndUnchainStacks_loop code' (length chain) (Suc i) (stack_next s) ?p
                           = Inr (Smi 0, p2)"
    and fin: "\<forall>y \<in> set chain. objects (heap p2) (fst y) = Some (uncooked code code' y)"
    and frame: "\<forall>y. y \<notin> fst ` set chain \<longrightarrow> objects (heap p2) y = objects (heap ?p) y"
    and same: "p2 = ?p\<lparr>heap := (heap ?p)\<lparr>objects := objects (heap p2)\<rparr>,
                  cooked_stack_deltas := cooked_stack_deltas p2\<rparr>"
    by blast
  have r1: "UncookAndUnchainStacks_loop code' (length (x # chain)) i raw p = Inr (Smi 0, p2)"
    using step loop by simp
  have "objects (heap p2) a = Some (uncooked code code' (a, s))"
    using frame notin by (simp add: uncooked_def)
  then have r2: "\<forall>y \<in> set (x # chain). objects (heap p2) (fst y) = Some (uncooked code code' y)"
    using fin x by simp
  have r3: "\<forall>y. y \<notin> fst ` set (x # chain) \<longrightarrow> objects (heap p2) y = objects (heap p) y"
    using frame x by simp
  have r4: "p2 = p\<lparr>heap := (heap p)\<lparr>objects := objects (heap p2)\<rparr>,
                  cooked_stack_deltas := cooked_stack_deltas p2\<rparr>"
    by (subst same) simp
  from r1 r2 r3 r4 show ?case by blast
qed

lemma stack_chain_objects:
  "stack_chain h raw chain \<Longrightarrow> (a, s) \<in> set chain \<Longrightarrow> objects h a = Some (StackObject s)"
  by (induction chain arbitrary: raw) auto

text \<open>
  Every stack of the chain comes back with its byte-code pointers relocated and its
  \<^verbatim>\<open>next\<close> field cleared, the list of deltas is dropped, and nothing else changes.
\<close>

lemma UncookAndUnchainStacks_CookStacks:
  fixes p :: "('u, 's) Process"
  assumes cur: "stack p = Inr (a0, s0)"
    and chain: "stack_chain (heap p) (HeapObject a0) chain" "distinct (map fst chain)"
    and wf: "\<forall>x \<in> set chain. well_framed code code' (nat (Stack_length s0)) x"
  shows "\<exists>p1 p2. CookStacks code p (int (length chain)) = Inr p1 \<and>
           UncookAndUnchainStacks code' p1 = Inr p2 \<and>
           (\<forall>x \<in> set chain. objects (heap p2) (fst x) = Some (uncooked code code' x)) \<and>
           (\<forall>x. x \<notin> fst ` set chain \<longrightarrow> objects (heap p2) x = objects (heap p) x) \<and>
           p2 = p\<lparr>heap := (heap p)\<lparr>objects := objects (heap p2)\<rparr>, cooked_stack_deltas := []\<rparr>"
proof -
  let ?n = "length chain"
  let ?p0 = "p\<lparr>cooked_stack_deltas := replicate ?n []\<rparr>"
  have cur0: "stack ?p0 = Inr (a0, s0)"
    using cur by (simp add: stack_objects_cong [where q = ?p0 and p = p])
  have chain0: "stack_chain (heap ?p0) (HeapObject a0) chain"
    using chain(1) by simp
  have room: "0 + ?n \<le> length (cooked_stack_deltas ?p0)"
    by simp
  from CookStacks_loop_chain [OF chain0 chain(2) wf room cur0 refl]
  obtain p1 where loop1: "CookStacks_loop code ?n 0 (HeapObject a0) ?p0 = Inr (Smi 0, p1)"
    and cooked: "cooked_chain code code' (heap p1) (cooked_stack_deltas p1) 0 (HeapObject a0) chain"
    and frame1: "\<forall>x. x \<notin> fst ` set chain \<longrightarrow> objects (heap p1) x = objects (heap ?p0) x"
    and len1: "length (cooked_stack_deltas p1) = length (cooked_stack_deltas ?p0)"
    and same1: "p1 = ?p0\<lparr>heap := (heap ?p0)\<lparr>objects := objects (heap p1)\<rparr>,
                  cooked_stack_deltas := cooked_stack_deltas p1\<rparr>"
    by blast
  have r1: "CookStacks code p (int ?n) = Inr p1"
    using cur0 loop1 by (simp add: CookStacks_def Let_def)
  from stack_InrD [OF cur] obtain c where c: "coroutine p = Some c"
    "objects (heap p) c = Some (CoroutineObject (HeapObject a0))"
    by blast
  have "c \<notin> fst ` set chain"
  proof
    assume "c \<in> fst ` set chain"
    then obtain s where "(c, s) \<in> set chain" by auto
    from stack_chain_objects [OF chain(1) this] c(2) show False by simp
  qed
  with frame1 c(2) have c1: "objects (heap p1) c = Some (CoroutineObject (HeapObject a0))"
    by simp
  have co1: "coroutine p1 = Some c"
    by (subst same1) (simp add: c(1))
  from chain(1) obtain s rest where "chain = (a0, s) # rest"
    by (cases chain) auto
  with cooked obtain ws where "objects (heap p1) a0 = Some (StackObject (s\<lparr>words := ws\<rparr>))"
    by auto
  from stack_InrI [OF co1 c1 this] have cur1: "stack p1 = Inr (a0, s\<lparr>words := ws\<rparr>)" .
  from UncookAndUnchainStacks_loop_chain [OF cooked chain(2)]
  obtain p2 where loop2: "UncookAndUnchainStacks_loop code' ?n 0 (HeapObject a0) p1 = Inr (Smi 0, p2)"
    and fin: "\<forall>x \<in> set chain. objects (heap p2) (fst x) = Some (uncooked code code' x)"
    and frame2: "\<forall>x. x \<notin> fst ` set chain \<longrightarrow> objects (heap p2) x = objects (heap p1) x"
    and same2: "p2 = p1\<lparr>heap := (heap p1)\<lparr>objects := objects (heap p2)\<rparr>,
                  cooked_stack_deltas := cooked_stack_deltas p2\<rparr>"
    by blast
  let ?q = "p2\<lparr>cooked_stack_deltas := []\<rparr>"
  have r2: "UncookAndUnchainStacks code' p1 = Inr ?q"
    using cur1 loop2 len1 by (simp add: UncookAndUnchainStacks_def)
  have r3: "\<forall>x \<in> set chain. objects (heap ?q) (fst x) = Some (uncooked code code' x)"
    using fin by simp
  have r4: "\<forall>x. x \<notin> fst ` set chain \<longrightarrow> objects (heap ?q) x = objects (heap p) x"
    using frame1 frame2 by simp
  define O1 D1 O2 D2 where "O1 = objects (heap p1)" and "D1 = cooked_stack_deltas p1"
    and "O2 = objects (heap p2)" and "D2 = cooked_stack_deltas p2"
  have s1: "p1 = p\<lparr>heap := (heap p)\<lparr>objects := O1\<rparr>, cooked_stack_deltas := D1\<rparr>"
    unfolding O1_def D1_def by (subst same1) simp
  have s2: "p2 = p1\<lparr>heap := (heap p1)\<lparr>objects := O2\<rparr>, cooked_stack_deltas := D2\<rparr>"
    unfolding O2_def D2_def by (rule same2)
  have "?q = p\<lparr>heap := (heap p)\<lparr>objects := O2\<rparr>, cooked_stack_deltas := []\<rparr>"
    by (simp add: s2 s1)
  moreover have "objects (heap ?q) = O2"
    by (simp add: O2_def)
  ultimately have r5: "?q = p\<lparr>heap := (heap p)\<lparr>objects := objects (heap ?q)\<rparr>,
                              cooked_stack_deltas := []\<rparr>"
    by (simp only:)
  from r1 r2 r3 r4 r5 show ?thesis by blast
qed


text \<open>When the code has not moved, the words come back as they were.\<close>

lemma restored_words_same:
  "\<forall>slot \<in> set slots. \<exists>bcp. ws ! slot = RawWord bcp \<Longrightarrow> restored_words code code slots ws = ws"
proof (induction slots)
  case Nil
  show ?case by simp
next
  case (Cons slot slots)
  then obtain bcp where "ws ! slot = RawWord bcp" by auto
  then have "relocate_bcp code code (ws ! slot) = ws ! slot"
    by (simp add: relocate_bcp_def Let_def)
  with Cons show ?case by simp
qed

lemma chained_round_trip:
  "\<exists>p1. CookStacks (chained_code 2) chained_process 2 = Inr p1 \<and>
        UncookAndUnchainStacks (chained_code 2) p1
          = Inr (chained_process\<lparr>heap := example_heap\<lparr>objects :=
                   [1 \<mapsto> CoroutineObject (HeapObject 2),
                    2 \<mapsto> StackObject \<lparr>stack_top = 250, stack_next = Smi 0,
                                          words = replicate 256 (RawWord 5000)\<rparr>,
                    3 \<mapsto> StackObject \<lparr>stack_top = 100, stack_next = Smi 0,
                                          words = replicate 1024 (RawWord 5000)\<rparr>]\<rparr>,
                 cooked_stack_deltas := []\<rparr>)"
proof -
  let ?s2 = "\<lparr>stack_top = 250, stack_next = HeapObject 3, words = replicate 256 (RawWord 5000)\<rparr>"
  let ?s3 = "\<lparr>stack_top = 100, stack_next = Smi 0, words = replicate 1024 (RawWord 5000)\<rparr>"
  let ?chain = "[(2::addr, ?s2), (3, ?s3)]"
  have frames: "chained_frames 2 = [101, 104]"
    by (simp add: chained_frames_def numeral_2_eq_2)
  have cur: "stack chained_process = Inr (2, ?s2)"
    by (simp add: stack_def Coroutine_stack_def Stack_cast_def chained_process_def
        example_process_def example_heap_def)
  have chain: "stack_chain (heap chained_process) (HeapObject 2) ?chain"
    by (simp add: chained_process_def)
  have dist: "distinct (map fst ?chain)"
    by simp
  have wf: "\<forall>x \<in> set ?chain. well_framed (chained_code 2) (chained_code 2) (nat (Stack_length ?s2)) x"
    by (simp add: well_framed_def chained_code_def frames Stack_length_def)
  have same: "restored_words (chained_code 2) (chained_code 2) slots (replicate n (RawWord 5000))
                = replicate n (RawWord 5000)" if "\<forall>slot \<in> set slots. slot < n" for slots n
    using that by (intro restored_words_same) simp
  from UncookAndUnchainStacks_CookStacks [OF cur chain dist wf]
  obtain p1 p2 where cook: "CookStacks (chained_code 2) chained_process 2 = Inr p1"
    and uncook: "UncookAndUnchainStacks (chained_code 2) p1 = Inr p2"
    and stacks: "\<forall>x \<in> set ?chain. objects (heap p2) (fst x)
                   = Some (uncooked (chained_code 2) (chained_code 2) x)"
    and others: "\<forall>x. x \<notin> fst ` set ?chain \<longrightarrow> objects (heap p2) x = objects (heap chained_process) x"
    and rest: "p2 = chained_process\<lparr>heap := (heap chained_process)\<lparr>objects := objects (heap p2)\<rparr>,
                      cooked_stack_deltas := []\<rparr>"
    by auto
  have slots: "ByteCodePointerSlots (chained_code 2) 2 = [251]"
    "ByteCodePointerSlots (chained_code 2) 3 = [101, 104]"
    by (simp_all add: chained_code_def frames)
  have o2: "objects (heap p2) 2 = Some (StackObject (?s2\<lparr>stack_next := Smi 0\<rparr>))"
    using stacks by (simp add: uncooked_def slots same del: restored_words.simps)
  have o3: "objects (heap p2) 3 = Some (StackObject ?s3)"
    using stacks by (simp add: uncooked_def slots same del: restored_words.simps)
  have "objects (heap p2) =
          [1 \<mapsto> CoroutineObject (HeapObject 2),
           2 \<mapsto> StackObject (?s2\<lparr>stack_next := Smi 0\<rparr>), 3 \<mapsto> StackObject ?s3]"
  proof
    fix x
    show "objects (heap p2) x =
          [1 \<mapsto> CoroutineObject (HeapObject 2),
           2 \<mapsto> StackObject (?s2\<lparr>stack_next := Smi 0\<rparr>), 3 \<mapsto> StackObject ?s3] x"
      using o2 o3 others [rule_format, of x]
      by (cases "x = 2 \<or> x = 3") (auto simp add: chained_process_def)
  qed
  then have "p2 = chained_process\<lparr>heap := example_heap\<lparr>objects :=
                   [1 \<mapsto> CoroutineObject (HeapObject 2),
                    2 \<mapsto> StackObject (?s2\<lparr>stack_next := Smi 0\<rparr>), 3 \<mapsto> StackObject ?s3]\<rparr>,
                 cooked_stack_deltas := []\<rparr>"
    by (subst rest) (simp add: chained_process_def)
  with cook uncook show ?thesis by simp
qed

text \<open>
  C5 fails on a chain whose second stack has more frames than the current stack has
  words. \<^verbatim>\<open>CookStacks\<close> gives the list of deltas of every stack the size
  \<^verbatim>\<open>stack()->length()\<close>, the length of the current stack, and not that of the stack being
  cooked. Here the current stack has 256 words and the chained stack 257 frames: the
  write of the 257th delta is outside the list, and no byte-code pointer is restored.
\<close>
theorem CookStacks_overruns_deltas:
  "CookStacks (chained_code 257) chained_process 2 = Inl IndexOutOfRange"
proof -
  have frames: "CookFrames (chained_code 257) (chained_frames 257)
          (replicate 1024 (RawWord 5000)) (replicate 256 0) 0 = Inl IndexOutOfRange"
    by (rule CookFrames_overflow) (use chained_frames_facts [of 257] in auto)
  have two: "CookStacks_loop code 2 i raw p = CookStacks_loop code (Suc (Suc 0)) i raw p"
    for code i raw and p :: "(32 word, nat \<times> nat) Process"
    by (simp add: numeral_2_eq_2)
  have code: "FunctionFromByteCodePointer (chained_code 257) bcp = 60"
    "bytecode_address_for (chained_code 257) f 0 = 4096"
    "ByteCodePointerSlots (chained_code 257) 2 = [251]"
    "ByteCodePointerSlots (chained_code 257) 3 = chained_frames 257" for bcp f
    by (simp_all add: chained_code_def)
  show ?thesis
    by (simp add: CookStacks_def stack_def Coroutine_stack_def Stack_cast_def Stack_length_def
        chained_process_def example_process_def example_heap_def Let_def two code frames)
qed

end
